theory Spec2Isabelle
  imports Complex_Main
begin

section \<open>Python values\<close>

text \<open>
  The values handled by \<^verbatim>\<open>rlcheckmt.py\<close> are the cells of a CSV row (a string, or
  \<^verbatim>\<open>None\<close> where \<^verbatim>\<open>csv.DictReader\<close> fills a short row) and whatever
  \<^verbatim>\<open>response.json()\<close> returns. A float is its exact value, or one of the three
  non-finite values that \<^verbatim>\<open>json.loads\<close> accepts. A dictionary is an association
  list in insertion order. A string is a list of characters; Python indexes code points
  where this model has bytes, which the program never observes for ASCII text.
\<close>

datatype pyfloat = Finite rat | PosInf | NegInf | NaN

datatype pyval =
    PNone
  | PBool bool
  | PInt int
  | PFloat pyfloat
  | PStr string
  | PList "pyval list"
  | PDict "(string \<times> pyval) list"

type_synonym pydict = "(string \<times> pyval) list"

text \<open>The exceptions that the modelled code can raise or receive.\<close>

datatype exc =
    RequestException
  | UnboundLocalError
  | ValueError
  | KeyError
  | TypeError
  | JSONDecodeError
  | OtherError

text \<open>\<^verbatim>\<open>d[k]\<close> on a dictionary and \<^verbatim>\<open>d.update({k: v})\<close>: an existing key keeps its
  position, a new key goes to the end.\<close>

definition dict_getitem :: "pydict \<Rightarrow> string \<Rightarrow> exc + pyval" where
  "dict_getitem d k = (case map_of d k of None \<Rightarrow> Inl KeyError | Some v \<Rightarrow> Inr v)"

fun dict_set :: "string \<Rightarrow> pyval \<Rightarrow> pydict \<Rightarrow> pydict" where
  "dict_set k v [] = [(k, v)]"
| "dict_set k v ((k', v') # d) =
     (if k = k' then (k, v) # d else (k', v') # dict_set k v d)"

fun dict_update :: "pydict \<Rightarrow> pydict \<Rightarrow> pydict" where
  "dict_update d [] = d"
| "dict_update d ((k, v) # kvs) = dict_update (dict_set k v d) kvs"

text \<open>\<^verbatim>\<open>k in s\<close> for two strings is the substring test.\<close>

fun startswith :: "string \<Rightarrow> string \<Rightarrow> bool" where
  "startswith s [] = True"
| "startswith [] (c # k) = False"
| "startswith (d # s) (c # k) = (d = c \<and> startswith s k)"

fun str_contains :: "string \<Rightarrow> string \<Rightarrow> bool" where
  "str_contains [] k = (k = [])"
| "str_contains (c # s) k = (startswith (c # s) k \<or> str_contains s k)"

text \<open>\<^verbatim>\<open>"k" in v\<close>: key membership for a dictionary, element membership for a list,
  substring for a string, \<^verbatim>\<open>TypeError\<close> for a value that is not iterable.\<close>

fun py_in :: "string \<Rightarrow> pyval \<Rightarrow> exc + bool" where
  "py_in k (PDict d) = Inr (k \<in> set (map fst d))"
| "py_in k (PList l) = Inr (PStr k \<in> set l)"
| "py_in k (PStr s) = Inr (str_contains s k)"
| "py_in k v = Inl TypeError"

text \<open>\<^verbatim>\<open>v["k"]\<close> with a string subscript: only a dictionary accepts it.\<close>

fun py_getitem :: "pyval \<Rightarrow> string \<Rightarrow> exc + pyval" where
  "py_getitem (PDict d) k = dict_getitem d k"
| "py_getitem v k = Inl TypeError"

text \<open>\<^verbatim>\<open>"a" in data and "b" in data["a"]\<close>, evaluated left to right with the
  short circuit of \<^verbatim>\<open>and\<close>.\<close>

definition has_nested :: "pyval \<Rightarrow> string \<Rightarrow> string \<Rightarrow> exc + bool" where
  "has_nested data a b =
     (case py_in a data of
        Inl e \<Rightarrow> Inl e
      | Inr False \<Rightarrow> Inr False
      | Inr True \<Rightarrow>
          (case py_getitem data a of
             Inl e \<Rightarrow> Inl e
           | Inr inner \<Rightarrow> py_in b inner))"

text \<open>\<^verbatim>\<open>data["a"]["b"]\<close>.\<close>

definition get_nested :: "pyval \<Rightarrow> string \<Rightarrow> string \<Rightarrow> exc + pyval" where
  "get_nested data a b =
     (case py_getitem data a of
        Inl e \<Rightarrow> Inl e
      | Inr inner \<Rightarrow> py_getitem inner b)"

text \<open>The sequence a \<^verbatim>\<open>for\<close> loop runs over: the keys of a dictionary, the elements
  of a list, the one-character strings of a string.\<close>

fun py_iter :: "pyval \<Rightarrow> exc + pyval list" where
  "py_iter (PDict d) = Inr (map (\<lambda>kv. PStr (fst kv)) d)"
| "py_iter (PList l) = Inr l"
| "py_iter (PStr s) = Inr (map (\<lambda>c. PStr [c]) s)"
| "py_iter v = Inl TypeError"

text \<open>\<^verbatim>\<open>v == n\<close> and \<^verbatim>\<open>v >= n\<close> against an integer. Equality never raises; the
  ordering raises \<^verbatim>\<open>TypeError\<close> unless the left side is a number (\<^verbatim>\<open>bool\<close> is a
  subclass of \<^verbatim>\<open>int\<close>).\<close>

fun py_eq_int :: "pyval \<Rightarrow> int \<Rightarrow> bool" where
  "py_eq_int (PInt m) n = (m = n)"
| "py_eq_int (PBool b) n = ((if b then 1 else 0) = n)"
| "py_eq_int (PFloat (Finite r)) n = (r = of_int n)"
| "py_eq_int v n = False"

fun py_ge_int :: "pyval \<Rightarrow> int \<Rightarrow> exc + bool" where
  "py_ge_int (PInt m) n = Inr (m \<ge> n)"
| "py_ge_int (PBool b) n = Inr ((if b then 1 else 0) \<ge> n)"
| "py_ge_int (PFloat (Finite r)) n = Inr (r \<ge> of_int n)"
| "py_ge_int (PFloat PosInf) n = Inr True"
| "py_ge_int (PFloat NegInf) n = Inr False"
| "py_ge_int (PFloat NaN) n = Inr False"
| "py_ge_int v n = Inl TypeError"

text \<open>\<^verbatim>\<open>s + v\<close> with a string on the left, and \<^verbatim>\<open>acc += s\<close> with a string on the
  right: a string is concatenated, a list is extended by the characters of the string,
  anything else raises \<^verbatim>\<open>TypeError\<close>.\<close>

fun str_add :: "string \<Rightarrow> pyval \<Rightarrow> exc + string" where
  "str_add s (PStr t) = Inr (s @ t)"
| "str_add s v = Inl TypeError"

fun py_iadd_str :: "pyval \<Rightarrow> string \<Rightarrow> exc + pyval" where
  "py_iadd_str (PStr a) s = Inr (PStr (a @ s))"
| "py_iadd_str (PList l) s = Inr (PList (l @ map (\<lambda>c. PStr [c]) s))"
| "py_iadd_str v s = Inl TypeError"

section \<open>Application constants\<close>

definition SUPPORTED_THREAT_TYPES :: "string list" where
  "SUPPORTED_THREAT_TYPES = [''IP Address'', ''Domain'', ''URL'']"

definition MIN_BLOCKED_RISK_LEVEL :: int where
  "MIN_BLOCKED_RISK_LEVEL = 8"

definition BLOCKED_CATEGORY_IDS :: "int list" where
  "BLOCKED_CATEGORY_IDS = [17, 18, 43, 44]"

definition tex_api_url :: string where
  "tex_api_url = ''https://threatexplorer.symantec.com/api/v1/url'' @ ''?level=STANDARD&url=''"

section \<open>The classifier call: \<^verbatim>\<open>rlcheck\<close>\<close>

text \<open>
  \<^verbatim>\<open>requests.get\<close> is the network: it either returns a response or raises. Of a
  response the code reads \<^verbatim>\<open>status_code\<close> and \<^verbatim>\<open>json()\<close>; the latter raises when
  the body is not JSON, which is \<open>None\<close> here.
\<close>

record response =
  status_code :: int
  json :: "pyval option"

datatype get_outcome = Returns response | Raises exc

text \<open>The dictionary \<^verbatim>\<open>ret\<close>. The key \<^verbatim>\<open>error\<close> holds an integer or the caught
  exception object; the two \<^verbatim>\<open>blocked_by_\<close> keys exist only once they are set.\<close>

datatype errval = ErrCode int | ErrExc exc

record ret =
  error :: errval
  blocked :: int
  risklevel :: pyval
  category :: "pyval list"
  blocked_by_cat :: "int option"
  blocked_by_rl :: "int option"

definition ret_init :: ret where
  "ret_init = \<lparr> error = ErrCode 0, blocked = 0, risklevel = PInt 0, category = [],
                 blocked_by_cat = None, blocked_by_rl = None \<rparr>"

text \<open>\<^verbatim>\<open>cat["id"] in BLOCKED_CATEGORY_IDS\<close>.\<close>

definition in_blocked_ids :: "pyval \<Rightarrow> bool" where
  "in_blocked_ids v = list_ex (py_eq_int v) BLOCKED_CATEGORY_IDS"

text \<open>The loop \<^verbatim>\<open>for cat in categories\<close> of lines 276 to 280.\<close>

fun categories_loop :: "pyval list \<Rightarrow> ret \<Rightarrow> exc + ret" where
  "categories_loop [] r = Inr r"
| "categories_loop (cat # cats) r =
     (case py_getitem cat ''name'' of
        Inl e \<Rightarrow> Inl e
      | Inr name \<Rightarrow>
          (let r1 = r\<lparr>category := category r @ [name]\<rparr> in
           case py_getitem cat ''id'' of
             Inl e \<Rightarrow> Inl e
           | Inr i \<Rightarrow>
               categories_loop cats
                 (if in_blocked_ids i
                  then r1\<lparr>blocked := 1, blocked_by_cat := Some 1\<rparr>
                  else r1)))"

text \<open>Lines 273 to 280: the categorization part of a 200 response.\<close>

definition read_categorization :: "pyval \<Rightarrow> ret \<Rightarrow> exc + ret" where
  "read_categorization data r =
     (case has_nested data ''categorization'' ''categories'' of
        Inl e \<Rightarrow> Inl e
      | Inr False \<Rightarrow> Inr r
      | Inr True \<Rightarrow>
          (case get_nested data ''categorization'' ''categories'' of
             Inl e \<Rightarrow> Inl e
           | Inr categories \<Rightarrow>
               (case py_iter categories of
                  Inl e \<Rightarrow> Inl e
                | Inr cats \<Rightarrow> categories_loop cats r)))"

text \<open>Lines 282 to 288: the risk level part of a 200 response.\<close>

definition read_risk_level :: "pyval \<Rightarrow> ret \<Rightarrow> exc + ret" where
  "read_risk_level data r =
     (case has_nested data ''threatRiskLevel'' ''level'' of
        Inl e \<Rightarrow> Inl e
      | Inr False \<Rightarrow> Inr r
      | Inr True \<Rightarrow>
          (case get_nested data ''threatRiskLevel'' ''level'' of
             Inl e \<Rightarrow> Inl e
           | Inr level \<Rightarrow>
               (let r1 = r\<lparr>risklevel := level\<rparr> in
                case py_ge_int level MIN_BLOCKED_RISK_LEVEL of
                  Inl e \<Rightarrow> Inl e
                | Inr True \<Rightarrow> Inr (r1\<lparr>blocked := 1, blocked_by_rl := Some 1\<rparr>)
                | Inr False \<Rightarrow> Inr r1)))"

text \<open>Lines 267 to 297. The local variable \<^verbatim>\<open>response\<close> is an option: \<open>None\<close> when
  no assignment to it has happened, and reading it then raises
  \<^verbatim>\<open>UnboundLocalError\<close>.\<close>

definition rlcheck_status :: "response option \<Rightarrow> ret \<Rightarrow> exc + ret" where
  "rlcheck_status resp r =
     (case resp of
        None \<Rightarrow> Inl UnboundLocalError
      | Some response \<Rightarrow>
          if status_code response = 200 then
            (let r1 = r\<lparr>error := ErrCode 0, blocked := 0, category := []\<rparr> in
             case json response of
               None \<Rightarrow> Inl JSONDecodeError
             | Some data \<Rightarrow>
                 (case read_categorization data r1 of
                    Inl e \<Rightarrow> Inl e
                  | Inr r2 \<Rightarrow> read_risk_level data r2))
          else if status_code response = 400 then Inr (r\<lparr>error := ErrCode 400\<rparr>)
          else if status_code response = 401 then Inr (r\<lparr>error := ErrCode 401\<rparr>)
          else if status_code response = 429 then Inr (r\<lparr>error := ErrCode 429\<rparr>)
          else Inr r)"

text \<open>
  \<^verbatim>\<open>rlcheck(ioc)\<close>, with the network as the parameter \<open>get\<close> (a URL to an outcome).
  The concatenation \<^verbatim>\<open>tex_api_url + ioc\<close> is inside the \<^verbatim>\<open>try\<close>, whose handler
  matches \<^verbatim>\<open>RequestException\<close> only: it stores the exception in \<^verbatim>\<open>ret['error']\<close>
  and falls through to line 267 with \<^verbatim>\<open>response\<close> unassigned.
\<close>

definition rlcheck :: "(string \<Rightarrow> get_outcome) \<Rightarrow> pyval \<Rightarrow> exc + ret" where
  "rlcheck get ioc =
     (case str_add tex_api_url ioc of
        Inl e \<Rightarrow> Inl e
      | Inr url \<Rightarrow>
          (case get url of
             Returns response \<Rightarrow> rlcheck_status (Some response) ret_init
           | Raises e \<Rightarrow>
               if e = RequestException
               then rlcheck_status None (ret_init\<lparr>error := ErrExc e\<rparr>)
               else Inl e))"

section \<open>Queues, sinks and the statistics object\<close>

text \<open>
  A \<^verbatim>\<open>queue.Queue\<close>: everything put so far (oldest first), how many of these
  \<^verbatim>\<open>get\<close> has handed out, and the counter of unfinished tasks that \<^verbatim>\<open>join\<close>
  waits on. \<^verbatim>\<open>get\<close> with a timeout returns \<open>None\<close> for \<^verbatim>\<open>queue.Empty\<close>;
  \<^verbatim>\<open>task_done\<close> raises \<^verbatim>\<open>ValueError\<close> when called once too often.
\<close>

record 'a pyqueue =
  puts :: "'a list"
  taken :: nat
  unfinished_tasks :: nat

definition Queue :: "'a pyqueue" where
  "Queue = \<lparr> puts = [], taken = 0, unfinished_tasks = 0 \<rparr>"

definition queue_put :: "'a \<Rightarrow> 'a pyqueue \<Rightarrow> 'a pyqueue" where
  "queue_put x qu = qu\<lparr>puts := puts qu @ [x], unfinished_tasks := unfinished_tasks qu + 1\<rparr>"

definition queue_get :: "'a pyqueue \<Rightarrow> ('a \<times> 'a pyqueue) option" where
  "queue_get qu =
     (if taken qu < length (puts qu)
      then Some (puts qu ! taken qu, qu\<lparr>taken := taken qu + 1\<rparr>)
      else None)"

definition queue_task_done :: "'a pyqueue \<Rightarrow> 'a pyqueue option" where
  "queue_task_done qu =
     (if unfinished_tasks qu = 0 then None
      else Some (qu\<lparr>unfinished_tasks := unfinished_tasks qu - 1\<rparr>))"

text \<open>\<^verbatim>\<open>join\<close> returns only in a state where this holds.\<close>

definition queue_joined :: "'a pyqueue \<Rightarrow> bool" where
  "queue_joined qu = (unfinished_tasks qu = 0)"

text \<open>
  A \<^verbatim>\<open>CSVWriter\<close>: the name of its file, the field names of its
  \<^verbatim>\<open>csv.DictWriter\<close>, its queue, its \<^verbatim>\<open>finished\<close> flag and whether the file handle
  has been closed. \<^verbatim>\<open>write\<close> only puts on the queue.
\<close>

record CSVWriter =
  filename :: string
  fieldnames :: "string list"
  queue :: "pydict pyqueue"
  finished :: bool
  handle_closed :: bool

definition CSVWriter_write :: "CSVWriter \<Rightarrow> pydict \<Rightarrow> CSVWriter" where
  "CSVWriter_write w data = w\<lparr>queue := queue_put data (queue w)\<rparr>"

text \<open>An \<^verbatim>\<open>IOCStat\<close>: four counters and the queue of events; \<^verbatim>\<open>update\<close> only
  puts on the queue. An event is the dictionary \<^verbatim>\<open>{'type': tag}\<close>.\<close>

record IOCStat =
  ioc_blocked :: int
  ioc_policy :: int
  ioc_error :: int
  ioc_total :: int
  stat_queue :: "pydict pyqueue"
  stat_finished :: bool

definition IOCStat_update :: "IOCStat \<Rightarrow> pydict \<Rightarrow> IOCStat" where
  "IOCStat_update st data = st\<lparr>stat_queue := queue_put data (stat_queue st)\<rparr>"

definition stat_event :: "string \<Rightarrow> pydict" where
  "stat_event tag = [(''type'', PStr tag)]"

section \<open>The worker's step: \<^verbatim>\<open>do_work\<close>\<close>

text \<open>The loop of lines 310 to 314, which builds \<^verbatim>\<open>categories\<close>.\<close>

fun join_categories :: "pyval list \<Rightarrow> pyval \<Rightarrow> exc + pyval" where
  "join_categories [] categories = Inr categories"
| "join_categories (cat # cats) categories =
     (if categories = PStr [] then join_categories cats cat
      else
        (case str_add '', '' cat of
           Inl e \<Rightarrow> Inl e
         | Inr s \<Rightarrow>
             (case py_iadd_str categories s of
                Inl e \<Rightarrow> Inl e
              | Inr categories' \<Rightarrow> join_categories cats categories')))"

text \<open>
  \<^verbatim>\<open>do_work\<close> returns the three sinks and the statistics object as it leaves them.
  The record is changed in place before it is written, so what a sink receives is the
  updated record. The \<^verbatim>\<open>log\<close> call of line 306 prints to the console only.
\<close>

definition do_work ::
  "(string \<Rightarrow> get_outcome) \<Rightarrow> pydict \<Rightarrow> CSVWriter \<Rightarrow> CSVWriter \<Rightarrow> CSVWriter \<Rightarrow> IOCStat
     \<Rightarrow> exc + (CSVWriter \<times> CSVWriter \<times> CSVWriter \<times> IOCStat)" where
  "do_work get item csv_blocked csv_policy csv_error stat =
     (case dict_getitem item ''Indicator'' of
        Inl e \<Rightarrow> Inl e
      | Inr ioc \<Rightarrow>
          (case rlcheck get ioc of
             Inl e \<Rightarrow> Inl e
           | Inr r \<Rightarrow>
               if error r \<noteq> ErrCode 0 then
                 Inr (csv_blocked, csv_policy, CSVWriter_write csv_error item,
                      IOCStat_update stat (stat_event ''error''))
               else
                 (case join_categories (category r) (PStr []) of
                    Inl e \<Rightarrow> Inl e
                  | Inr categories \<Rightarrow>
                      (let item' = dict_update item
                             [(''BC_RiskLevel'', risklevel r), (''BC_Category'', categories)]
                       in if blocked r = 1 then
                            Inr (CSVWriter_write csv_blocked item', csv_policy, csv_error,
                                 IOCStat_update stat (stat_event ''blocked''))
                          else
                            Inr (csv_blocked, CSVWriter_write csv_policy item', csv_error,
                                 IOCStat_update stat (stat_event ''policy''))))))"

section \<open>The statistics thread: \<^verbatim>\<open>IOCStat.stat_keeper\<close>\<close>

text \<open>\<^verbatim>\<open>IOCStat.__init__\<close>. The update interval and the time of the last output only
  drive the progress line and are left out.\<close>

definition IOCStat_init :: IOCStat where
  "IOCStat_init = \<lparr> ioc_blocked = 0, ioc_policy = 0, ioc_error = 0, ioc_total = 0,
                     stat_queue = Queue, stat_finished = False \<rparr>"

text \<open>Lines 220 to 226: what \<^verbatim>\<open>stat_keeper\<close> does with one event taken from its
  queue. A tag outside the three known ones still counts into the total.\<close>

definition stat_keeper_event :: "pydict \<Rightarrow> IOCStat \<Rightarrow> exc + IOCStat" where
  "stat_keeper_event data st =
     (case dict_getitem data ''type'' of
        Inl e \<Rightarrow> Inl e
      | Inr t \<Rightarrow>
          (let st1 =
             (if t = PStr ''blocked'' then st\<lparr>ioc_blocked := ioc_blocked st + 1\<rparr>
              else if t = PStr ''policy'' then st\<lparr>ioc_policy := ioc_policy st + 1\<rparr>
              else if t = PStr ''error'' then st\<lparr>ioc_error := ioc_error st + 1\<rparr>
              else st)
           in Inr (st1\<lparr>ioc_total := ioc_total st1 + 1\<rparr>)))"

text \<open>One pass through the body of the loop of \<^verbatim>\<open>stat_keeper\<close>: \<^verbatim>\<open>get\<close>, the
  counters, \<^verbatim>\<open>task_done\<close>. On \<^verbatim>\<open>queue.Empty\<close> nothing changes.\<close>

definition stat_keeper_pass :: "IOCStat \<Rightarrow> exc + IOCStat" where
  "stat_keeper_pass st =
     (case queue_get (stat_queue st) of
        None \<Rightarrow> Inr st
      | Some (data, qu) \<Rightarrow>
          (case stat_keeper_event data (st\<lparr>stat_queue := qu\<rparr>) of
             Inl e \<Rightarrow> Inl e
           | Inr st' \<Rightarrow>
               (case queue_task_done (stat_queue st') of
                  None \<Rightarrow> Inl ValueError
                | Some qu' \<Rightarrow> Inr (st'\<lparr>stat_queue := qu'\<rparr>))))"

text \<open>The thread applies the events one after the other, in the order of the queue; an
  exception ends it.\<close>

fun stat_keeper :: "pydict list \<Rightarrow> IOCStat \<Rightarrow> exc + IOCStat" where
  "stat_keeper [] st = Inr st"
| "stat_keeper (data # rest) st =
     (case stat_keeper_event data st of
        Inl e \<Rightarrow> Inl e
      | Inr st' \<Rightarrow> stat_keeper rest st')"

definition stat_invariant :: "IOCStat \<Rightarrow> bool" where
  "stat_invariant st = (ioc_total st = ioc_blocked st + ioc_policy st + ioc_error st)"

definition stat_le :: "IOCStat \<Rightarrow> IOCStat \<Rightarrow> bool" where
  "stat_le st st' =
     (ioc_total st \<le> ioc_total st' \<and> ioc_blocked st \<le> ioc_blocked st' \<and>
      ioc_policy st \<le> ioc_policy st' \<and> ioc_error st \<le> ioc_error st')"

section \<open>Ingestion: lines 414 to 419 of \<^verbatim>\<open>main\<close>\<close>

text \<open>\<^verbatim>\<open>row['ThreatType'] in SUPPORTED_THREAT_TYPES\<close> compares the cell with each of
  the three strings.\<close>

definition supported :: "pyval \<Rightarrow> bool" where
  "supported t = (t \<in> set (map PStr SUPPORTED_THREAT_TYPES))"

definition ingest_row ::
  "pydict \<Rightarrow> pydict pyqueue \<Rightarrow> CSVWriter \<Rightarrow> IOCStat
     \<Rightarrow> exc + (pydict pyqueue \<times> CSVWriter \<times> IOCStat)" where
  "ingest_row row qu csv_error stat =
     (case dict_getitem row ''ThreatType'' of
        Inl e \<Rightarrow> Inl e
      | Inr t \<Rightarrow>
          if supported t then Inr (queue_put row qu, csv_error, stat)
          else Inr (qu, CSVWriter_write csv_error row,
                    IOCStat_update stat (stat_event ''error'')))"

fun ingest ::
  "pydict list \<Rightarrow> pydict pyqueue \<Rightarrow> CSVWriter \<Rightarrow> IOCStat
     \<Rightarrow> exc + (pydict pyqueue \<times> CSVWriter \<times> IOCStat)" where
  "ingest [] qu csv_error stat = Inr (qu, csv_error, stat)"
| "ingest (row # rows) qu csv_error stat =
     (case ingest_row row qu csv_error stat of
        Inl e \<Rightarrow> Inl e
      | Inr (qu', csv_error', stat') \<Rightarrow> ingest rows qu' csv_error' stat')"

text \<open>Whether the column \<^verbatim>\<open>ThreatType\<close> of a row holds a supported type.\<close>

definition row_supported :: "pydict \<Rightarrow> bool" where
  "row_supported row = (case map_of row ''ThreatType'' of None \<Rightarrow> False | Some t \<Rightarrow> supported t)"

section \<open>Files and the writer of a sink\<close>

text \<open>
  The disk maps a file name to a CSV file: the header line and the rows written so
  far. \<^verbatim>\<open>csv.DictWriter.writerow\<close> raises \<^verbatim>\<open>ValueError\<close> for a dictionary with a
  key outside the field names; otherwise the row has one cell for each field name, the
  empty string where the dictionary has no such key. The conversion of a cell to text is
  left out.
\<close>

record csvfile =
  file_header :: "string list"
  file_rows :: "pyval list list"

definition DictWriter_row :: "string list \<Rightarrow> pydict \<Rightarrow> exc + pyval list" where
  "DictWriter_row names rowdict =
     (if set (map fst rowdict) \<subseteq> set names
      then Inr (map (\<lambda>k. case map_of rowdict k of None \<Rightarrow> PStr [] | Some v \<Rightarrow> v) names)
      else Inl ValueError)"

text \<open>\<^verbatim>\<open>CSVWriter.__init__\<close>: opening with mode \<^verbatim>\<open>"w"\<close> creates the file, or empties
  an existing one, and \<^verbatim>\<open>writeheader\<close> writes the field names. The directory is taken
  to exist, so that \<^verbatim>\<open>open\<close> succeeds. The writer thread it starts is part of the
  pipeline state below.\<close>

definition CSVWriter_init ::
  "string \<Rightarrow> string list \<Rightarrow> (string \<rightharpoonup> csvfile) \<Rightarrow> CSVWriter \<times> (string \<rightharpoonup> csvfile)" where
  "CSVWriter_init name names disk =
     (\<lparr> filename = name, fieldnames = names, queue = Queue, finished = False,
         handle_closed = False \<rparr>,
      disk(name \<mapsto> \<lparr> file_header = names, file_rows = [] \<rparr>))"

section \<open>The pipeline as a transition system\<close>

text \<open>
  The threads of \<^verbatim>\<open>rlcheckmt.py\<close> from line 394 on: the workers, one writer for each
  sink, and the main thread up to the closing of the sinks in line 428. Each thread has
  a program counter; a step of the system is a step of one thread. A thread that has
  raised an exception takes no further step. The statistics thread only reads the
  statistics queue and is not part of this state.
\<close>

datatype role = BlockedSink | PolicySink | ErrorSink

definition role_tag :: "role \<Rightarrow> string" where
  "role_tag r = (case r of BlockedSink \<Rightarrow> ''blocked'' | PolicySink \<Rightarrow> ''policy''
                 | ErrorSink \<Rightarrow> ''error'')"

text \<open>\<^verbatim>\<open>os.path.join\<close> with a second part that is not absolute, and the three output
  file names of lines 370 to 375.\<close>

definition path_join :: "string \<Rightarrow> string \<Rightarrow> string" where
  "path_join a b = (if a = [] \<or> last a = CHR ''/'' then a @ b else a @ ''/'' @ b)"

definition outputfile :: "string \<Rightarrow> string \<Rightarrow> string \<Rightarrow> role \<Rightarrow> string" where
  "outputfile outpath ts base r = path_join outpath (ts @ ''_'' @ role_tag r @ ''_'' @ base)"

text \<open>Lines 381 to 385: the field names are the keys of the first row and the two
  derived fields. With no row the variable is never assigned, and line 394 raises.\<close>

definition fieldnames_of :: "pydict list \<Rightarrow> exc + string list" where
  "fieldnames_of input_rows =
     (case input_rows of
        [] \<Rightarrow> Inl UnboundLocalError
      | row # _ \<Rightarrow>
          Inr (map fst (dict_update row
                 [(''BC_RiskLevel'', PStr []), (''BC_Category'', PStr [])])))"

text \<open>
  Program counters. A worker: at the loop test, in \<^verbatim>\<open>q.get\<close>, holding an item before
  \<^verbatim>\<open>do_work\<close>, before \<^verbatim>\<open>q.task_done\<close>, out of the loop, or dead. A writer likewise,
  with \<^verbatim>\<open>writerow\<close> in the place of \<^verbatim>\<open>do_work\<close>. The main thread: in the ingestion
  loop with the rows still to read, in \<^verbatim>\<open>q.join\<close>, before
  \<^verbatim>\<open>shutdown_event.set\<close>, in one of the three statements of \<^verbatim>\<open>close\<close> for a sink,
  past line 428, or dead.
\<close>

datatype worker_pc = WLoop | WGet | WWork pydict | WAck | WExit | WDead

datatype writer_pc = SLoop | SGet | SWrite pydict | SAck | SExit | SDead

datatype main_pc =
    MFill "pydict list"
  | MJoin
  | MShutdown
  | MCloseJoin role
  | MCloseFinish role
  | MCloseFile role
  | MClosed
  | MDead

record state =
  workq :: "pydict pyqueue"
  shutdown_event :: bool
  sinks :: "role \<Rightarrow> CSVWriter"
  iocstat :: IOCStat
  disk :: "string \<rightharpoonup> csvfile"
  threads :: "worker_pc list"
  writers :: "role \<Rightarrow> writer_pc"
  mainpc :: main_pc

definition three :: "'a \<Rightarrow> 'a \<Rightarrow> 'a \<Rightarrow> role \<Rightarrow> 'a" where
  "three b p e r = (case r of BlockedSink \<Rightarrow> b | PolicySink \<Rightarrow> p | ErrorSink \<Rightarrow> e)"

text \<open>Lines 394 to 409: the three sinks, the statistics object and \<open>n\<close> workers are
  created; the main thread stands before the ingestion loop.\<close>

definition main_start ::
  "string \<Rightarrow> string \<Rightarrow> string \<Rightarrow> (string \<rightharpoonup> csvfile) \<Rightarrow> pydict list \<Rightarrow> nat \<Rightarrow> exc + state" where
  "main_start outpath ts base disk0 input_rows n =
     (case fieldnames_of input_rows of
        Inl e \<Rightarrow> Inl e
      | Inr names \<Rightarrow>
          (let (b, disk1) = CSVWriter_init (outputfile outpath ts base BlockedSink) names disk0;
               (p, disk2) = CSVWriter_init (outputfile outpath ts base PolicySink) names disk1;
               (e, disk3) = CSVWriter_init (outputfile outpath ts base ErrorSink) names disk2
           in Inr \<lparr> workq = Queue, shutdown_event = False, sinks = three b p e,
                    iocstat = IOCStat_init, disk = disk3, threads = replicate n WLoop,
                    writers = (\<lambda>r. SLoop), mainpc = MFill input_rows \<rparr>))"

text \<open>The statement of \<^verbatim>\<open>main\<close> that follows the closing of a sink.\<close>

definition after_close :: "role \<Rightarrow> main_pc" where
  "after_close r = (case r of BlockedSink \<Rightarrow> MCloseJoin PolicySink
                    | PolicySink \<Rightarrow> MCloseJoin ErrorSink | ErrorSink \<Rightarrow> MClosed)"

inductive step :: "state \<Rightarrow> state \<Rightarrow> bool" where
  worker_continue:
    "i < length (threads s) \<Longrightarrow> threads s ! i = WLoop \<Longrightarrow> \<not> shutdown_event s \<Longrightarrow>
     step s (s\<lparr>threads := (threads s)[i := WGet]\<rparr>)"
| worker_exit:
    "i < length (threads s) \<Longrightarrow> threads s ! i = WLoop \<Longrightarrow> shutdown_event s \<Longrightarrow>
     step s (s\<lparr>threads := (threads s)[i := WExit]\<rparr>)"
| worker_get:
    "i < length (threads s) \<Longrightarrow> threads s ! i = WGet \<Longrightarrow>
     queue_get (workq s) = Some (item, qu) \<Longrightarrow>
     step s (s\<lparr>workq := qu, threads := (threads s)[i := WWork item]\<rparr>)"
| worker_empty:
    "i < length (threads s) \<Longrightarrow> threads s ! i = WGet \<Longrightarrow> queue_get (workq s) = None \<Longrightarrow>
     step s (s\<lparr>threads := (threads s)[i := WLoop]\<rparr>)"
| worker_do_work:
    "i < length (threads s) \<Longrightarrow> threads s ! i = WWork item \<Longrightarrow>
     do_work get item (sinks s BlockedSink) (sinks s PolicySink) (sinks s ErrorSink) (iocstat s)
       = Inr (b, p, e, st) \<Longrightarrow>
     step s (s\<lparr>sinks := three b p e, iocstat := st, threads := (threads s)[i := WAck]\<rparr>)"
| worker_raise:
    "i < length (threads s) \<Longrightarrow> threads s ! i = WWork item \<Longrightarrow>
     do_work get item (sinks s BlockedSink) (sinks s PolicySink) (sinks s ErrorSink) (iocstat s)
       = Inl ex \<Longrightarrow>
     step s (s\<lparr>threads := (threads s)[i := WDead]\<rparr>)"
| worker_task_done:
    "i < length (threads s) \<Longrightarrow> threads s ! i = WAck \<Longrightarrow>
     queue_task_done (workq s) = Some qu \<Longrightarrow>
     step s (s\<lparr>workq := qu, threads := (threads s)[i := WLoop]\<rparr>)"
| worker_task_done_raise:
    "i < length (threads s) \<Longrightarrow> threads s ! i = WAck \<Longrightarrow>
     queue_task_done (workq s) = None \<Longrightarrow>
     step s (s\<lparr>threads := (threads s)[i := WDead]\<rparr>)"
| writer_continue:
    "writers s r = SLoop \<Longrightarrow> \<not> finished (sinks s r) \<Longrightarrow>
     step s (s\<lparr>writers := (writers s)(r := SGet)\<rparr>)"
| writer_exit:
    "writers s r = SLoop \<Longrightarrow> finished (sinks s r) \<Longrightarrow>
     step s (s\<lparr>writers := (writers s)(r := SExit)\<rparr>)"
| writer_get:
    "writers s r = SGet \<Longrightarrow> queue_get (queue (sinks s r)) = Some (data, qu) \<Longrightarrow>
     step s (s\<lparr>sinks := (sinks s)(r := (sinks s r)\<lparr>queue := qu\<rparr>),
              writers := (writers s)(r := SWrite data)\<rparr>)"
| writer_empty:
    "writers s r = SGet \<Longrightarrow> queue_get (queue (sinks s r)) = None \<Longrightarrow>
     step s (s\<lparr>writers := (writers s)(r := SLoop)\<rparr>)"
| writer_writerow:
    "writers s r = SWrite data \<Longrightarrow> \<not> handle_closed (sinks s r) \<Longrightarrow>
     DictWriter_row (fieldnames (sinks s r)) data = Inr cells \<Longrightarrow>
     disk s (filename (sinks s r)) = Some f \<Longrightarrow>
     step s (s\<lparr>disk := (disk s)(filename (sinks s r) \<mapsto> f\<lparr>file_rows := file_rows f @ [cells]\<rparr>),
              writers := (writers s)(r := SAck)\<rparr>)"
| writer_raise:
    "writers s r = SWrite data \<Longrightarrow>
     handle_closed (sinks s r) \<or> DictWriter_row (fieldnames (sinks s r)) data = Inl ex \<Longrightarrow>
     step s (s\<lparr>writers := (writers s)(r := SDead)\<rparr>)"
| writer_task_done:
    "writers s r = SAck \<Longrightarrow> queue_task_done (queue (sinks s r)) = Some qu \<Longrightarrow>
     step s (s\<lparr>sinks := (sinks s)(r := (sinks s r)\<lparr>queue := qu\<rparr>),
              writers := (writers s)(r := SLoop)\<rparr>)"
| writer_task_done_raise:
    "writers s r = SAck \<Longrightarrow> queue_task_done (queue (sinks s r)) = None \<Longrightarrow>
     step s (s\<lparr>writers := (writers s)(r := SDead)\<rparr>)"
| main_row:
    "mainpc s = MFill (row # rest) \<Longrightarrow>
     ingest_row row (workq s) (sinks s ErrorSink) (iocstat s) = Inr (qu, e, st) \<Longrightarrow>
     step s (s\<lparr>workq := qu, sinks := (sinks s)(ErrorSink := e), iocstat := st,
              mainpc := MFill rest\<rparr>)"
| main_row_raise:
    "mainpc s = MFill (row # rest) \<Longrightarrow>
     ingest_row row (workq s) (sinks s ErrorSink) (iocstat s) = Inl ex \<Longrightarrow>
     step s (s\<lparr>mainpc := MDead\<rparr>)"
| main_rows_done:
    "mainpc s = MFill [] \<Longrightarrow> step s (s\<lparr>mainpc := MJoin\<rparr>)"
| main_join:
    "mainpc s = MJoin \<Longrightarrow> queue_joined (workq s) \<Longrightarrow> step s (s\<lparr>mainpc := MShutdown\<rparr>)"
| main_shutdown:
    "mainpc s = MShutdown \<Longrightarrow>
     step s (s\<lparr>shutdown_event := True, mainpc := MCloseJoin BlockedSink\<rparr>)"
| main_close_join:
    "mainpc s = MCloseJoin r \<Longrightarrow> queue_joined (queue (sinks s r)) \<Longrightarrow>
     step s (s\<lparr>mainpc := MCloseFinish r\<rparr>)"
| main_close_finished:
    "mainpc s = MCloseFinish r \<Longrightarrow>
     step s (s\<lparr>sinks := (sinks s)(r := (sinks s r)\<lparr>finished := True\<rparr>),
              mainpc := MCloseFile r\<rparr>)"
| main_close_file:
    "mainpc s = MCloseFile r \<Longrightarrow>
     step s (s\<lparr>sinks := (sinks s)(r := (sinks s r)\<lparr>handle_closed := True\<rparr>),
              mainpc := after_close r\<rparr>)"

text \<open>The states that a run can be in.\<close>

inductive reachable :: "state \<Rightarrow> state \<Rightarrow> bool" for s0 :: state where
  start: "reachable s0 s0"
| next_step: "reachable s0 s \<Longrightarrow> step s s' \<Longrightarrow> reachable s0 s'"

section \<open>What the threads hold, and how far the main thread is\<close>

text \<open>A worker between \<^verbatim>\<open>q.get\<close> and \<^verbatim>\<open>q.task_done\<close> holds one item of the work
  queue that is not yet acknowledged; a worker that died there holds it for ever. The
  same for a writer and its own queue; \<open>unwritten\<close> tells whether the record the writer
  holds is not yet in the file.\<close>

fun holding :: "worker_pc \<Rightarrow> nat" where
  "holding (WWork item) = 1"
| "holding WAck = 1"
| "holding WDead = 1"
| "holding pc = 0"

fun writer_holding :: "writer_pc \<Rightarrow> nat" where
  "writer_holding (SWrite data) = 1"
| "writer_holding SAck = 1"
| "writer_holding SDead = 1"
| "writer_holding pc = 0"

fun unwritten :: "writer_pc \<Rightarrow> nat" where
  "unwritten (SWrite data) = 1"
| "unwritten SDead = 1"
| "unwritten pc = 0"

text \<open>The position of the main thread in lines 411 to 428, as a number that grows
  along the program text. The three sinks are closed in the order blocked, policy,
  error.\<close>

fun role_index :: "role \<Rightarrow> nat" where
  "role_index BlockedSink = 0"
| "role_index PolicySink = 1"
| "role_index ErrorSink = 2"

fun main_rank :: "main_pc \<Rightarrow> nat" where
  "main_rank (MFill rest) = 0"
| "main_rank MDead = 0"
| "main_rank MJoin = 1"
| "main_rank MShutdown = 2"
| "main_rank (MCloseJoin r) = 3 + 3 * role_index r"
| "main_rank (MCloseFinish r) = 4 + 3 * role_index r"
| "main_rank (MCloseFile r) = 5 + 3 * role_index r"
| "main_rank MClosed = 12"

text \<open>The work queue is drained: nothing is unacknowledged, nothing is left in the
  queue, and no worker holds an item.\<close>

definition drained :: "state \<Rightarrow> bool" where
  "drained s =
     (unfinished_tasks (workq s) = 0 \<and> taken (workq s) = length (puts (workq s)) \<and>
      sum_list (map holding (threads s)) = 0)"

text \<open>The rows in the file of a sink, each as a result of \<^verbatim>\<open>writerow\<close> that did not
  raise. All is written when nothing of the sink's queue is unacknowledged and the rows
  in the file are what \<^verbatim>\<open>writerow\<close> makes of the records submitted, in the order of
  submission.\<close>

definition written :: "state \<Rightarrow> role \<Rightarrow> (exc + pyval list) list option" where
  "written s r = map_option (\<lambda>f. map Inr (file_rows f)) (disk s (filename (sinks s r)))"

definition all_written :: "state \<Rightarrow> role \<Rightarrow> bool" where
  "all_written s r =
     (unfinished_tasks (queue (sinks s r)) = 0 \<and>
      written s r =
        Some (map (DictWriter_row (fieldnames (sinks s r))) (puts (queue (sinks s r)))))"

text \<open>The invariants of the transition system.\<close>

definition work_inv :: "state \<Rightarrow> bool" where
  "work_inv s =
     (taken (workq s) \<le> length (puts (workq s)) \<and>
      unfinished_tasks (workq s) =
        length (puts (workq s)) - taken (workq s) + sum_list (map holding (threads s)))"

definition main_inv :: "state \<Rightarrow> bool" where
  "main_inv s =
     ((2 \<le> main_rank (mainpc s) \<longrightarrow> unfinished_tasks (workq s) = 0) \<and>
      (shutdown_event s \<longrightarrow> 3 \<le> main_rank (mainpc s)) \<and>
      (\<forall>r. (4 + 3 * role_index r \<le> main_rank (mainpc s)
              \<longrightarrow> unfinished_tasks (queue (sinks s r)) = 0) \<and>
           (finished (sinks s r) \<longrightarrow> 5 + 3 * role_index r \<le> main_rank (mainpc s)) \<and>
           (handle_closed (sinks s r) \<longrightarrow> 6 + 3 * role_index r \<le> main_rank (mainpc s))))"

text \<open>The record a writer is about to write.\<close>

fun held :: "writer_pc \<Rightarrow> pydict option" where
  "held (SWrite data) = Some data"
| "held pc = None"

definition sink_inv :: "state \<Rightarrow> role \<Rightarrow> bool" where
  "sink_inv s r =
     (writer_holding (writers s r) \<le> taken (queue (sinks s r)) \<and>
      taken (queue (sinks s r)) \<le> length (puts (queue (sinks s r))) \<and>
      unfinished_tasks (queue (sinks s r)) =
        length (puts (queue (sinks s r))) - taken (queue (sinks s r))
          + writer_holding (writers s r) \<and>
      held (writers s r) \<in>
        {None, Some (puts (queue (sinks s r)) ! (taken (queue (sinks s r)) - 1))} \<and>
      written s r =
        Some (map (DictWriter_row (fieldnames (sinks s r)))
                (take (taken (queue (sinks s r)) - unwritten (writers s r))
                   (puts (queue (sinks s r))))))"

definition names_inv :: "state \<Rightarrow> bool" where
  "names_inv s = inj (\<lambda>r. filename (sinks s r))"

section \<open>Running the pipeline under a schedule\<close>

text \<open>
  A schedule names, step by step, the thread that moves; for a worker it also gives the
  network that its call of \<^verbatim>\<open>do_work\<close> meets. What the thread then does is determined
  by its program counter. \<open>None\<close> means that the thread cannot move: it has ended, or it
  is blocked in a \<^verbatim>\<open>join\<close>.
\<close>

datatype action =
    WorkerStep nat "string \<Rightarrow> get_outcome"
  | WriterStep role
  | MainStep

definition worker_step :: "nat \<Rightarrow> (string \<Rightarrow> get_outcome) \<Rightarrow> state \<Rightarrow> state option" where
  "worker_step i get s =
     (if i < length (threads s) then
        (case threads s ! i of
           WLoop \<Rightarrow>
             Some (s\<lparr>threads := (threads s)[i := if shutdown_event s then WExit else WGet]\<rparr>)
         | WGet \<Rightarrow>
             (case queue_get (workq s) of
                Some (item, qu) \<Rightarrow>
                  Some (s\<lparr>workq := qu, threads := (threads s)[i := WWork item]\<rparr>)
              | None \<Rightarrow> Some (s\<lparr>threads := (threads s)[i := WLoop]\<rparr>))
         | WWork item \<Rightarrow>
             (case do_work get item (sinks s BlockedSink) (sinks s PolicySink)
                     (sinks s ErrorSink) (iocstat s) of
                Inr (b, p, e, st) \<Rightarrow>
                  Some (s\<lparr>sinks := three b p e, iocstat := st,
                          threads := (threads s)[i := WAck]\<rparr>)
              | Inl ex \<Rightarrow> Some (s\<lparr>threads := (threads s)[i := WDead]\<rparr>))
         | WAck \<Rightarrow>
             (case queue_task_done (workq s) of
                Some qu \<Rightarrow> Some (s\<lparr>workq := qu, threads := (threads s)[i := WLoop]\<rparr>)
              | None \<Rightarrow> Some (s\<lparr>threads := (threads s)[i := WDead]\<rparr>))
         | WExit \<Rightarrow> None
         | WDead \<Rightarrow> None)
      else None)"

definition writer_step :: "role \<Rightarrow> state \<Rightarrow> state option" where
  "writer_step r s =
     (case writers s r of
        SLoop \<Rightarrow>
          Some (s\<lparr>writers := (writers s)(r := if finished (sinks s r) then SExit else SGet)\<rparr>)
      | SGet \<Rightarrow>
          (case queue_get (queue (sinks s r)) of
             Some (data, qu) \<Rightarrow>
               Some (s\<lparr>sinks := (sinks s)(r := (sinks s r)\<lparr>queue := qu\<rparr>),
                       writers := (writers s)(r := SWrite data)\<rparr>)
           | None \<Rightarrow> Some (s\<lparr>writers := (writers s)(r := SLoop)\<rparr>))
      | SWrite data \<Rightarrow>
          (if handle_closed (sinks s r) then Some (s\<lparr>writers := (writers s)(r := SDead)\<rparr>)
           else
             (case DictWriter_row (fieldnames (sinks s r)) data of
                Inl ex \<Rightarrow> Some (s\<lparr>writers := (writers s)(r := SDead)\<rparr>)
              | Inr cells \<Rightarrow>
                  (case disk s (filename (sinks s r)) of
                     None \<Rightarrow> None
                   | Some f \<Rightarrow>
                       Some (s\<lparr>disk := (disk s)(filename (sinks s r) \<mapsto>
                                        f\<lparr>file_rows := file_rows f @ [cells]\<rparr>),
                               writers := (writers s)(r := SAck)\<rparr>))))
      | SAck \<Rightarrow>
          (case queue_task_done (queue (sinks s r)) of
             Some qu \<Rightarrow>
               Some (s\<lparr>sinks := (sinks s)(r := (sinks s r)\<lparr>queue := qu\<rparr>),
                       writers := (writers s)(r := SLoop)\<rparr>)
           | None \<Rightarrow> Some (s\<lparr>writers := (writers s)(r := SDead)\<rparr>))
      | SExit \<Rightarrow> None
      | SDead \<Rightarrow> None)"

definition main_step :: "state \<Rightarrow> state option" where
  "main_step s =
     (case mainpc s of
        MFill [] \<Rightarrow> Some (s\<lparr>mainpc := MJoin\<rparr>)
      | MFill (row # rest) \<Rightarrow>
          (case ingest_row row (workq s) (sinks s ErrorSink) (iocstat s) of
             Inr (qu, e, st) \<Rightarrow>
               Some (s\<lparr>workq := qu, sinks := (sinks s)(ErrorSink := e), iocstat := st,
                       mainpc := MFill rest\<rparr>)
           | Inl ex \<Rightarrow> Some (s\<lparr>mainpc := MDead\<rparr>))
      | MJoin \<Rightarrow> if queue_joined (workq s) then Some (s\<lparr>mainpc := MShutdown\<rparr>) else None
      | MShutdown \<Rightarrow> Some (s\<lparr>shutdown_event := True, mainpc := MCloseJoin BlockedSink\<rparr>)
      | MCloseJoin r \<Rightarrow>
          if queue_joined (queue (sinks s r)) then Some (s\<lparr>mainpc := MCloseFinish r\<rparr>)
          else None
      | MCloseFinish r \<Rightarrow>
          Some (s\<lparr>sinks := (sinks s)(r := (sinks s r)\<lparr>finished := True\<rparr>),
                  mainpc := MCloseFile r\<rparr>)
      | MCloseFile r \<Rightarrow>
          Some (s\<lparr>sinks := (sinks s)(r := (sinks s r)\<lparr>handle_closed := True\<rparr>),
                  mainpc := after_close r\<rparr>)
      | MClosed \<Rightarrow> None
      | MDead \<Rightarrow> None)"

fun exec :: "action \<Rightarrow> state \<Rightarrow> state option" where
  "exec (WorkerStep i get) s = worker_step i get s"
| "exec (WriterStep r) s = writer_step r s"
| "exec MainStep s = main_step s"

fun run :: "action list \<Rightarrow> state \<Rightarrow> state option" where
  "run [] s = Some s"
| "run (a # as) s = (case exec a s of None \<Rightarrow> None | Some s' \<Rightarrow> run as s')"

section \<open>The cleanup of the single-threaded \<^verbatim>\<open>rlcheck.py\<close>\<close>

text \<open>Lines 220 to 227 of \<^verbatim>\<open>rlcheck.py\<close>: after its loop, \<^verbatim>\<open>main\<close> removes each
  output file whose counter is still 0. \<^verbatim>\<open>rlcheckmt.py\<close> has no such statement.\<close>

definition remove_if_zero :: "nat \<Rightarrow> string \<Rightarrow> (string \<rightharpoonup> csvfile) \<Rightarrow> (string \<rightharpoonup> csvfile)" where
  "remove_if_zero count name files = (if count = 0 then files(name := None) else files)"

definition rlcheck_main_cleanup ::
  "nat \<Rightarrow> nat \<Rightarrow> nat \<Rightarrow> string \<Rightarrow> string \<Rightarrow> string
     \<Rightarrow> (string \<rightharpoonup> csvfile) \<Rightarrow> (string \<rightharpoonup> csvfile)" where
  "rlcheck_main_cleanup blocked_count policy_count error_count
       outputfile_blocked outputfile_policy outputfile_error files =
     remove_if_zero error_count outputfile_error
       (remove_if_zero policy_count outputfile_policy
          (remove_if_zero blocked_count outputfile_blocked files))"

section \<open>Sample inputs\<close>

text \<open>A 200 response with one category outside the blocked ones and a risk level exactly
  at the threshold and the result that \<^verbatim>\<open>rlcheck\<close> makes of it, a 200 response without
  a risk level, one whose body is not JSON, a response with status 500, a record of a
  supported type, the field names that an input with the two columns \<^verbatim>\<open>ThreatType\<close>
  and \<^verbatim>\<open>Indicator\<close> gives, and a fresh sink.\<close>

definition resp_level8 :: response where
  "resp_level8 = \<lparr> status_code = 200,
     json = Some (PDict
       [(''categorization'', PDict [(''categories'',
           PList [PDict [(''id'', PInt 38), (''name'', PStr ''Technology/Internet'')]])]),
        (''threatRiskLevel'', PDict [(''level'', PInt 8)])]) \<rparr>"

definition ret_level8 :: ret where
  "ret_level8 = \<lparr> error = ErrCode 0, blocked = 1, risklevel = PInt 8,
                   category = [PStr ''Technology/Internet''],
                   blocked_by_cat = None, blocked_by_rl = Some 1 \<rparr>"

definition resp_no_level :: response where
  "resp_no_level = \<lparr> status_code = 200,
     json = Some (PDict
       [(''categorization'', PDict [(''categories'',
           PList [PDict [(''id'', PInt 38), (''name'', PStr ''Technology/Internet'')]])])]) \<rparr>"

definition resp_not_json :: response where
  "resp_not_json = \<lparr> status_code = 200, json = None \<rparr>"

definition resp_500 :: response where
  "resp_500 = \<lparr> status_code = 500, json = None \<rparr>"

definition sample_item :: pydict where
  "sample_item = [(''ThreatType'', PStr ''IP Address''), (''Indicator'', PStr ''8.8.8.8'')]"

definition sample_names :: "string list" where
  "sample_names = [''ThreatType'', ''Indicator'', ''BC_RiskLevel'', ''BC_Category'']"

definition sample_sink :: "string \<Rightarrow> CSVWriter" where
  "sample_sink name = \<lparr> filename = name, fieldnames = sample_names, queue = Queue,
                          finished = False, handle_closed = False \<rparr>"

text \<open>A row of an unsupported type and two schedules with one worker: one for an input
  of a single unsupported row, one for an input of a supported and an unsupported row
  where the classifier answers with \<open>resp_level8\<close>.\<close>

definition hash_row :: pydict where
  "hash_row = [(''ThreatType'', PStr ''File Hash''), (''Indicator'', PStr ''d41d8cd98f00'')]"

definition schedule_unsupported :: "action list" where
  "schedule_unsupported =
     [MainStep, MainStep, MainStep, MainStep,
      MainStep, MainStep, MainStep,
      MainStep, MainStep, MainStep,
      WriterStep ErrorSink, WriterStep ErrorSink, WriterStep ErrorSink, WriterStep ErrorSink,
      MainStep, MainStep, MainStep]"

definition schedule_two_rows :: "action list" where
  "schedule_two_rows =
     [MainStep, MainStep, MainStep,
      WorkerStep 0 (\<lambda>url. Returns resp_level8), WorkerStep 0 (\<lambda>url. Returns resp_level8),
      WorkerStep 0 (\<lambda>url. Returns resp_level8), WorkerStep 0 (\<lambda>url. Returns resp_level8),
      MainStep, MainStep,
      WriterStep BlockedSink, WriterStep BlockedSink, WriterStep BlockedSink,
      WriterStep BlockedSink,
      MainStep, MainStep, MainStep,
      MainStep, MainStep, MainStep,
      WriterStep ErrorSink, WriterStep ErrorSink, WriterStep ErrorSink, WriterStep ErrorSink,
      MainStep, MainStep, MainStep]"

section \<open>Properties of the classifier call\<close>

lemma categories_loop_keeps:
  "categories_loop cats r = Inr r' \<Longrightarrow>
     risklevel r' = risklevel r \<and> blocked_by_rl r' = blocked_by_rl r \<and> error r' = error r"
proof (induction cats arbitrary: r)
  case Nil
  then show ?case by simp
next
  case (Cons cat cats)
  then show ?case
    by (auto simp: Let_def split: sum.splits if_splits)
qed

lemma read_categorization_keeps:
  "read_categorization data r = Inr r' \<Longrightarrow>
     risklevel r' = risklevel r \<and> blocked_by_rl r' = blocked_by_rl r \<and> error r' = error r"
  unfolding read_categorization_def
  by (auto split: sum.splits bool.splits dest: categories_loop_keeps)

lemma rlcheck_200:
  assumes "get (tex_api_url @ ioc) = Returns resp"
    and "status_code resp = 200"
    and "json resp = Some data"
  shows "rlcheck get (PStr ioc) =
     (case read_categorization data ret_init of
        Inl e \<Rightarrow> Inl e
      | Inr r2 \<Rightarrow> read_risk_level data r2)"
  using assms by (simp add: rlcheck_def rlcheck_status_def ret_init_def)

lemma rlcheck_resp_level8:
  "rlcheck (\<lambda>url. Returns resp_level8) (PStr ''8.8.8.8'') = Inr ret_level8"
  by (simp add: rlcheck_def rlcheck_status_def resp_level8_def ret_level8_def ret_init_def
      read_categorization_def read_risk_level_def has_nested_def get_nested_def
      dict_getitem_def in_blocked_ids_def BLOCKED_CATEGORY_IDS_def MIN_BLOCKED_RISK_LEVEL_def)

text \<open>
  C2. When \<^verbatim>\<open>requests.get\<close> raises a \<^verbatim>\<open>RequestException\<close>, the handler of line 264
  catches it, but \<^verbatim>\<open>rlcheck\<close> does not return a result with an error code: line 267
  reads the unassigned \<^verbatim>\<open>response\<close> and \<^verbatim>\<open>UnboundLocalError\<close> leaves
  \<^verbatim>\<open>rlcheck\<close>, for every indicator string.
\<close>

theorem rlcheck_transport_fault_raises:
  "rlcheck (\<lambda>url. Raises RequestException) (PStr ioc) = Inl UnboundLocalError"
  by (simp add: rlcheck_def rlcheck_status_def)

text \<open>
  C6. For a 200 response that carries an integer risk level \<open>n\<close> (and whose
  categorization part is read without an exception), \<^verbatim>\<open>rlcheck\<close> returns a result with
  that level in which \<^verbatim>\<open>blocked_by_rl\<close> is set exactly when \<open>n\<close> is at least
  \<^verbatim>\<open>MIN_BLOCKED_RISK_LEVEL\<close>, which is 8; then \<^verbatim>\<open>blocked\<close> is 1 as well. The
  threshold itself is blocked.
\<close>

theorem rlcheck_blocked_by_risk_level:
  assumes "get (tex_api_url @ ioc) = Returns resp"
    and "status_code resp = 200"
    and "json resp = Some data"
    and "has_nested data ''threatRiskLevel'' ''level'' = Inr True"
    and "get_nested data ''threatRiskLevel'' ''level'' = Inr (PInt n)"
    and "read_categorization data ret_init = Inr r2"
  shows "\<exists>r. rlcheck get (PStr ioc) = Inr r \<and> risklevel r = PInt n \<and>
           (blocked_by_rl r = Some 1 \<longleftrightarrow> n \<ge> MIN_BLOCKED_RISK_LEVEL) \<and>
           (blocked r = 1 \<and> blocked_by_rl r = Some 1 \<longleftrightarrow> n \<ge> 8)"
proof -
  have none: "blocked_by_rl r2 = None"
    using read_categorization_keeps[OF assms(6)] by (simp add: ret_init_def)
  have "read_risk_level data r2 =
      Inr (if n \<ge> 8 then r2\<lparr>risklevel := PInt n, blocked := 1, blocked_by_rl := Some 1\<rparr>
           else r2\<lparr>risklevel := PInt n\<rparr>)"
    using assms(4,5) by (simp add: read_risk_level_def MIN_BLOCKED_RISK_LEVEL_def)
  then show ?thesis
    using rlcheck_200[of get ioc resp data] assms(1-3,6) none
    by (simp add: MIN_BLOCKED_RISK_LEVEL_def)
qed

theorem rlcheck_blocked_by_risk_level_witness:
  "\<exists>r. rlcheck (\<lambda>url. Returns resp_level8) (PStr ''8.8.8.8'') = Inr r \<and>
       risklevel r = PInt 8 \<and> blocked_by_rl r = Some 1 \<and> blocked r = 1"
  using rlcheck_blocked_by_risk_level[of "\<lambda>url. Returns resp_level8" "''8.8.8.8''"
      resp_level8 "the (json resp_level8)" 8
      "ret_init\<lparr>category := [PStr ''Technology/Internet'']\<rparr>"]
  apply (simp add: resp_level8_def has_nested_def get_nested_def read_categorization_def
      dict_getitem_def in_blocked_ids_def BLOCKED_CATEGORY_IDS_def
      MIN_BLOCKED_RISK_LEVEL_def ret_init_def)
  apply blast
  done

text \<open>
  C9. For a 200 response whose data has no \<^verbatim>\<open>threatRiskLevel\<close> (and whose
  categorization part is read without an exception), \<^verbatim>\<open>rlcheck\<close> returns a result
  whose \<^verbatim>\<open>risklevel\<close> is the integer 0.
\<close>

theorem rlcheck_no_level_is_zero:
  assumes "get (tex_api_url @ ioc) = Returns resp"
    and "status_code resp = 200"
    and "json resp = Some data"
    and "py_in ''threatRiskLevel'' data = Inr False"
    and "read_categorization data ret_init = Inr r2"
  shows "\<exists>r. rlcheck get (PStr ioc) = Inr r \<and> risklevel r = PInt 0"
proof -
  have "read_risk_level data r2 = Inr r2"
    using assms(4) by (simp add: read_risk_level_def has_nested_def)
  moreover have "risklevel r2 = PInt 0"
    using read_categorization_keeps[OF assms(5)] by (simp add: ret_init_def)
  ultimately show ?thesis
    using rlcheck_200[of get ioc resp data] assms(1-3,5) by simp
qed

theorem rlcheck_no_level_is_zero_witness:
  "\<exists>r. rlcheck (\<lambda>url. Returns resp_no_level) (PStr ''example.org'') = Inr r \<and>
       risklevel r = PInt 0"
  using rlcheck_no_level_is_zero[of "\<lambda>url. Returns resp_no_level" "''example.org''"
      resp_no_level "the (json resp_no_level)"
      "ret_init\<lparr>category := [PStr ''Technology/Internet'']\<rparr>"]
  by (simp add: resp_no_level_def read_categorization_def has_nested_def get_nested_def
      dict_getitem_def in_blocked_ids_def BLOCKED_CATEGORY_IDS_def ret_init_def)

section \<open>Properties of the statistics thread\<close>

lemma stat_keeper_event_tag:
  assumes "tag \<in> {''blocked'', ''policy'', ''error''}"
  shows "\<exists>st'. stat_keeper_event (stat_event tag) st = Inr st' \<and>
           stat_le st st' \<and> (stat_invariant st \<longrightarrow> stat_invariant st') \<and>
           stat_queue st' = stat_queue st"
  using assms
  by (auto simp: stat_keeper_event_def stat_event_def dict_getitem_def stat_le_def
      stat_invariant_def)

lemma stat_le_trans: "stat_le a b \<Longrightarrow> stat_le b c \<Longrightarrow> stat_le a c"
  by (auto simp: stat_le_def)

lemma stat_keeper_tags:
  assumes "set tags \<subseteq> {''blocked'', ''policy'', ''error''}" and "stat_invariant st"
  shows "\<exists>st'. stat_keeper (map stat_event tags) st = Inr st' \<and>
           stat_invariant st' \<and> stat_le st st'"
  using assms
proof (induction tags arbitrary: st)
  case Nil
  then show ?case by (simp add: stat_le_def)
next
  case (Cons tag tags)
  from Cons.prems(1) have tag: "tag \<in> {''blocked'', ''policy'', ''error''}" by simp
  from stat_keeper_event_tag[OF tag, of st] Cons.prems(2)
  obtain st1 where st1: "stat_keeper_event (stat_event tag) st = Inr st1"
    "stat_le st st1" "stat_invariant st1"
    by blast
  from Cons.prems(1) have "set tags \<subseteq> {''blocked'', ''policy'', ''error''}" by simp
  from Cons.IH[OF this st1(3)]
  obtain st' where st': "stat_keeper (map stat_event tags) st1 = Inr st'"
    "stat_invariant st'" "stat_le st1 st'"
    by blast
  have "stat_keeper (map stat_event (tag # tags)) st = Inr st'"
    using st1(1) st'(1) by simp
  moreover have "stat_le st st'"
    using st1(2) st'(3) by (rule stat_le_trans)
  ultimately show ?case using st'(2) by blast
qed

lemma stat_keeper_append:
  "stat_keeper (xs @ ys) st =
     (case stat_keeper xs st of Inl e \<Rightarrow> Inl e | Inr st' \<Rightarrow> stat_keeper ys st')"
  by (induction xs arbitrary: st) (auto split: sum.splits)

lemma stat_keeper_pass_applies_event:
  assumes "queue_get (stat_queue st) = Some (data, qu)"
    and "queue_task_done qu = Some qu'"
  shows "stat_keeper_pass st =
     (case stat_keeper_event data st of
        Inl e \<Rightarrow> Inl e
      | Inr st' \<Rightarrow> Inr (st'\<lparr>stat_queue := qu'\<rparr>))"
  using assms
  by (auto simp: stat_keeper_pass_def stat_keeper_event_def Let_def split: sum.splits)

lemma stat_invariant_init: "stat_invariant IOCStat_init"
  by (simp add: stat_invariant_def IOCStat_init_def)

text \<open>
  C3. Let the statistics thread, started by \<^verbatim>\<open>IOCStat.__init__\<close>, apply a finite
  sequence of events whose tags are among \<^verbatim>\<open>blocked\<close>, \<^verbatim>\<open>policy\<close> and
  \<^verbatim>\<open>error\<close>. Cut the sequence anywhere: after the events before the cut the total
  equals the sum of the three other counters, after all events it does again, and no
  counter is smaller at the end than at the cut, nor at the cut than at the start.
\<close>

theorem stat_keeper_total_is_sum:
  assumes "set (before @ after) \<subseteq> {''blocked'', ''policy'', ''error''}"
  shows "\<exists>mid end.
           stat_keeper (map stat_event before) IOCStat_init = Inr mid \<and>
           stat_keeper (map stat_event (before @ after)) IOCStat_init = Inr end \<and>
           stat_invariant mid \<and> stat_invariant end \<and>
           stat_le IOCStat_init mid \<and> stat_le mid end"
proof -
  from assms have b: "set before \<subseteq> {''blocked'', ''policy'', ''error''}"
    and a: "set after \<subseteq> {''blocked'', ''policy'', ''error''}"
    by simp_all
  from stat_keeper_tags[OF b stat_invariant_init]
  obtain mid where mid: "stat_keeper (map stat_event before) IOCStat_init = Inr mid"
    "stat_invariant mid" "stat_le IOCStat_init mid"
    by blast
  from stat_keeper_tags[OF a mid(2)]
  obtain end' where e: "stat_keeper (map stat_event after) mid = Inr end'"
    "stat_invariant end'" "stat_le mid end'"
    by blast
  have "stat_keeper (map stat_event (before @ after)) IOCStat_init = Inr end'"
    using mid(1) e(1) by (simp add: stat_keeper_append)
  then show ?thesis using mid e by blast
qed

theorem stat_keeper_total_is_sum_witness:
  "\<exists>mid end.
     stat_keeper (map stat_event [''blocked'', ''error'']) IOCStat_init = Inr mid \<and>
     stat_keeper (map stat_event ([''blocked'', ''error''] @ [''policy''])) IOCStat_init
       = Inr end \<and>
     stat_invariant mid \<and> stat_invariant end \<and>
     stat_le IOCStat_init mid \<and> stat_le mid end"
  using stat_keeper_total_is_sum[of "[''blocked'', ''error'']" "[''policy'']"]
  by simp

section \<open>Properties of ingestion\<close>

lemma dict_has_key: "k \<in> set (map fst d) \<Longrightarrow> \<exists>v. map_of d k = Some v"
  by (cases "map_of d k") (simp_all add: map_of_eq_None_iff)

lemma ingest_row_has_type:
  assumes "map_of row ''ThreatType'' = Some t"
  shows "ingest_row row qu e st =
     Inr (if supported t then (queue_put row qu, e, st)
          else (qu, CSVWriter_write e row, IOCStat_update st (stat_event ''error'')))"
  using assms by (simp add: ingest_row_def dict_getitem_def)

text \<open>
  C5. If every row has a \<^verbatim>\<open>ThreatType\<close> column, the ingestion loop ends without an
  exception and has put on the work queue exactly the rows with a supported type, in
  order, has written exactly the other rows to the error sink, in order, and has sent
  one \<^verbatim>\<open>error\<close> event for each of these. The loop has no access to the classifier
  and takes nothing from the work queue.
\<close>

theorem ingest_partitions_rows:
  assumes "\<forall>row \<in> set rows. ''ThreatType'' \<in> set (map fst row)"
  shows "\<exists>qu' e' st'.
           ingest rows qu e st = Inr (qu', e', st') \<and>
           puts qu' = puts qu @ filter row_supported rows \<and>
           taken qu' = taken qu \<and>
           puts (queue e') = puts (queue e) @ filter (\<lambda>row. \<not> row_supported row) rows \<and>
           puts (stat_queue st') = puts (stat_queue st) @
             replicate (length (filter (\<lambda>row. \<not> row_supported row) rows))
               (stat_event ''error'')"
  using assms
proof (induction rows arbitrary: qu e st)
  case Nil
  then show ?case by simp
next
  case (Cons row rows)
  from Cons.prems obtain t where t: "map_of row ''ThreatType'' = Some t"
    using dict_has_key[of "''ThreatType''" row] by auto
  from Cons.prems have rest: "\<forall>row \<in> set rows. ''ThreatType'' \<in> set (map fst row)"
    by simp
  show ?case
  proof (cases "supported t")
    case True
    from Cons.IH[OF rest, of "queue_put row qu" e st] True t show ?thesis
      by (auto simp: ingest_row_has_type row_supported_def queue_put_def)
  next
    case False
    from Cons.IH[OF rest, of qu "CSVWriter_write e row"
        "IOCStat_update st (stat_event ''error'')"] False t
    show ?thesis
      by (auto simp: ingest_row_has_type row_supported_def queue_put_def CSVWriter_write_def
          IOCStat_update_def replicate_append_same)
  qed
qed

theorem ingest_partitions_rows_witness:
  "\<exists>qu' e' st'.
     ingest [sample_item, [(''ThreatType'', PStr ''File Hash''), (''Indicator'', PStr ''abc'')]]
       Queue (sample_sink ''error.csv'') IOCStat_init = Inr (qu', e', st') \<and>
     puts qu' = [sample_item] \<and>
     puts (queue e') = [[(''ThreatType'', PStr ''File Hash''), (''Indicator'', PStr ''abc'')]] \<and>
     puts (stat_queue st') = [stat_event ''error'']"
  using ingest_partitions_rows[of
      "[sample_item, [(''ThreatType'', PStr ''File Hash''), (''Indicator'', PStr ''abc'')]]"
      Queue "sample_sink ''error.csv''" IOCStat_init]
  apply (simp add: sample_item_def row_supported_def supported_def SUPPORTED_THREAT_TYPES_def
      Queue_def sample_sink_def IOCStat_init_def)
  apply blast
  done

section \<open>Properties of \<^verbatim>\<open>do_work\<close>\<close>

lemma dict_set_other:
  "\<not> P k \<Longrightarrow> filter (\<lambda>kv. P (fst kv)) (dict_set k v d) = filter (\<lambda>kv. P (fst kv)) d"
  by (induction d) auto

lemma dict_set_map_of: "map_of (dict_set k v d) = (map_of d)(k \<mapsto> v)"
  by (induction d) auto

lemma dict_set_keys: "set (map fst (dict_set k v d)) = insert k (set (map fst d))"
proof (induction d)
  case Nil
  show ?case by simp
next
  case (Cons kv d)
  obtain k' v' where kv: "kv = (k', v')" by (cases kv)
  show ?case
  proof (cases "k = k'")
    case True
    then show ?thesis by (simp add: kv)
  next
    case False
    then show ?thesis using Cons.IH by (simp add: kv insert_commute)
  qed
qed

lemma dict_update_frame:
  "filter (\<lambda>kv. fst kv \<notin> {a, b}) (dict_update d [(a, x), (b, y)]) =
   filter (\<lambda>kv. fst kv \<notin> {a, b}) d"
proof -
  let ?P = "\<lambda>k. k \<notin> {a, b}"
  have "filter (\<lambda>kv. ?P (fst kv)) (dict_set b y (dict_set a x d)) =
        filter (\<lambda>kv. ?P (fst kv)) (dict_set a x d)"
    by (rule dict_set_other) simp
  also have "\<dots> = filter (\<lambda>kv. ?P (fst kv)) d"
    by (rule dict_set_other) simp
  finally show ?thesis by simp
qed

lemma dict_update_keys:
  "set (map fst (dict_update d [(a, x), (b, y)])) = set (map fst d) \<union> {a, b}"
  by (simp only: dict_update.simps dict_set_keys) auto

lemma dict_update_values:
  "map_of (dict_update d [(a, x), (b, y)]) = (map_of d)(a \<mapsto> x, b \<mapsto> y)"
  by (simp add: dict_set_map_of)

lemma do_work_resp_level8:
  "do_work (\<lambda>url. Returns resp_level8) sample_item b p e st =
     Inr (CSVWriter_write b (sample_item @
            [(''BC_RiskLevel'', PInt 8), (''BC_Category'', PStr ''Technology/Internet'')]),
          p, e, IOCStat_update st (stat_event ''blocked''))"
  by (simp add: do_work_def sample_item_def dict_getitem_def rlcheck_resp_level8
      ret_level8_def)

text \<open>A transport fault in the classifier call leaves \<^verbatim>\<open>do_work\<close> as an exception
  too; the worker, which catches \<^verbatim>\<open>queue.Empty\<close> only, ends with it.\<close>

lemma do_work_transport_fault:
  "dict_getitem item ''Indicator'' = Inr (PStr ioc) \<Longrightarrow>
   do_work (\<lambda>url. Raises RequestException) item b p e st = Inl UnboundLocalError"
  by (simp add: do_work_def rlcheck_def rlcheck_status_def)

lemma worker_dies_on_transport_fault:
  assumes "i < length (threads s)" and "threads s ! i = WWork item"
    and "dict_getitem item ''Indicator'' = Inr (PStr ioc)"
  shows "worker_step i (\<lambda>url. Raises RequestException) s =
           Some (s\<lparr>threads := (threads s)[i := WDead]\<rparr>)"
  using assms by (simp add: worker_step_def do_work_transport_fault)

text \<open>
  C1, as the code has it. Whenever the record has an \<^verbatim>\<open>Indicator\<close>, \<^verbatim>\<open>rlcheck\<close>
  returns a result for it and, if that result has error 0, its category names join
  without a type error, \<^verbatim>\<open>do_work\<close> returns, and it has changed exactly one sink by one
  write and sent exactly one event: the unchanged record to the error sink with
  \<^verbatim>\<open>error\<close> if the error is not 0; else the record with the two derived fields to the
  blocked sink with \<^verbatim>\<open>blocked\<close> if \<^verbatim>\<open>blocked\<close> is 1; else the same to the policy
  sink with \<^verbatim>\<open>policy\<close>.
\<close>

theorem do_work_routes_once:
  assumes "dict_getitem item ''Indicator'' = Inr ioc"
    and "rlcheck get ioc = Inr r"
    and "error r = ErrCode 0 \<Longrightarrow> join_categories (category r) (PStr []) = Inr categories"
  defines "item' \<equiv> dict_update item
           [(''BC_RiskLevel'', risklevel r), (''BC_Category'', categories)]"
  shows "do_work get item csv_blocked csv_policy csv_error stat =
     Inr (if error r \<noteq> ErrCode 0 then
            (csv_blocked, csv_policy, CSVWriter_write csv_error item,
             IOCStat_update stat (stat_event ''error''))
          else if blocked r = 1 then
            (CSVWriter_write csv_blocked item', csv_policy, csv_error,
             IOCStat_update stat (stat_event ''blocked''))
          else
            (csv_blocked, CSVWriter_write csv_policy item', csv_error,
             IOCStat_update stat (stat_event ''policy'')))"
  using assms by (simp add: do_work_def)

theorem do_work_routes_once_witness:
  "do_work (\<lambda>url. Returns resp_level8) sample_item
       (sample_sink ''blocked.csv'') (sample_sink ''policy.csv'') (sample_sink ''error.csv'')
       IOCStat_init =
     Inr (CSVWriter_write (sample_sink ''blocked.csv'')
            (sample_item @
               [(''BC_RiskLevel'', PInt 8), (''BC_Category'', PStr ''Technology/Internet'')]),
          sample_sink ''policy.csv'', sample_sink ''error.csv'',
          IOCStat_update IOCStat_init (stat_event ''blocked''))"
  using do_work_routes_once[of sample_item "PStr ''8.8.8.8''" "\<lambda>url. Returns resp_level8"
      ret_level8 "PStr ''Technology/Internet''"
      "sample_sink ''blocked.csv''" "sample_sink ''policy.csv''" "sample_sink ''error.csv''"
      IOCStat_init]
  by (simp add: rlcheck_resp_level8 sample_item_def dict_getitem_def ret_level8_def)

text \<open>
  C1 does not hold for every record: a 200 response whose body is not JSON makes
  \<^verbatim>\<open>response.json()\<close> raise inside \<^verbatim>\<open>rlcheck\<close>; nothing catches the exception, so
  \<^verbatim>\<open>do_work\<close> ends with it and the record has reached no sink.
\<close>

theorem do_work_routes_nowhere:
  "do_work (\<lambda>url. Returns resp_not_json) sample_item
       (sample_sink ''blocked.csv'') (sample_sink ''policy.csv'') (sample_sink ''error.csv'')
       IOCStat_init = Inl JSONDecodeError"
  by (simp add: do_work_def sample_item_def dict_getitem_def rlcheck_def rlcheck_status_def
      resp_not_json_def)

text \<open>
  C8. When \<^verbatim>\<open>do_work\<close> processes a record whose classification has error 0, the
  record goes to the blocked or to the policy sink, and the record written differs from
  the original only in the fields \<^verbatim>\<open>BC_RiskLevel\<close> and \<^verbatim>\<open>BC_Category\<close>: the other
  fields are the same, with the same values and in the same order, and the field names
  are the original ones and these two.
\<close>

theorem do_work_frame:
  assumes "do_work get item csv_blocked csv_policy csv_error stat = Inr (b', p', e', st')"
    and "dict_getitem item ''Indicator'' = Inr ioc"
    and "rlcheck get ioc = Inr r"
    and "error r = ErrCode 0"
  shows "\<exists>item'.
           ((b' = CSVWriter_write csv_blocked item' \<and> p' = csv_policy) \<or>
            (b' = csv_blocked \<and> p' = CSVWriter_write csv_policy item')) \<and>
           e' = csv_error \<and>
           filter (\<lambda>kv. fst kv \<notin> {''BC_RiskLevel'', ''BC_Category''}) item' =
             filter (\<lambda>kv. fst kv \<notin> {''BC_RiskLevel'', ''BC_Category''}) item \<and>
           set (map fst item') = set (map fst item) \<union> {''BC_RiskLevel'', ''BC_Category''} \<and>
           map_of item' ''BC_RiskLevel'' = Some (risklevel r)"
proof -
  from assms obtain categories where
    j: "join_categories (category r) (PStr []) = Inr categories"
    by (auto simp: do_work_def split: sum.splits)
  let ?item' = "dict_update item
      [(''BC_RiskLevel'', risklevel r), (''BC_Category'', categories)]"
  have frame: "filter (\<lambda>kv. fst kv \<notin> {''BC_RiskLevel'', ''BC_Category''}) ?item' =
      filter (\<lambda>kv. fst kv \<notin> {''BC_RiskLevel'', ''BC_Category''}) item"
    by (rule dict_update_frame)
  have keys: "set (map fst ?item') = set (map fst item) \<union> {''BC_RiskLevel'', ''BC_Category''}"
    by (rule dict_update_keys)
  have level: "map_of ?item' ''BC_RiskLevel'' = Some (risklevel r)"
    by (simp add: dict_set_map_of)
  have route: "(b' = CSVWriter_write csv_blocked ?item' \<and> p' = csv_policy) \<or>
      (b' = csv_blocked \<and> p' = CSVWriter_write csv_policy ?item')"
    and err: "e' = csv_error"
    using assms j by (auto simp: do_work_def Let_def split: if_splits)
  from route err frame keys level show ?thesis by blast
qed

theorem do_work_frame_witness:
  "\<exists>item'.
     CSVWriter_write (sample_sink ''blocked.csv'')
       (sample_item @
          [(''BC_RiskLevel'', PInt 8), (''BC_Category'', PStr ''Technology/Internet'')]) =
       CSVWriter_write (sample_sink ''blocked.csv'') item' \<and>
     filter (\<lambda>kv. fst kv \<notin> {''BC_RiskLevel'', ''BC_Category''}) item' = sample_item \<and>
     map_of item' ''BC_RiskLevel'' = Some (PInt 8)"
proof -
  have "\<exists>item'.
     ((CSVWriter_write (sample_sink ''blocked.csv'')
         (sample_item @
            [(''BC_RiskLevel'', PInt 8), (''BC_Category'', PStr ''Technology/Internet'')]) =
         CSVWriter_write (sample_sink ''blocked.csv'') item' \<and>
       sample_sink ''policy.csv'' = sample_sink ''policy.csv'') \<or>
      (CSVWriter_write (sample_sink ''blocked.csv'')
         (sample_item @
            [(''BC_RiskLevel'', PInt 8), (''BC_Category'', PStr ''Technology/Internet'')]) =
         sample_sink ''blocked.csv'' \<and>
       sample_sink ''policy.csv'' = CSVWriter_write (sample_sink ''policy.csv'') item')) \<and>
     sample_sink ''error.csv'' = sample_sink ''error.csv'' \<and>
     filter (\<lambda>kv. fst kv \<notin> {''BC_RiskLevel'', ''BC_Category''}) item' =
       filter (\<lambda>kv. fst kv \<notin> {''BC_RiskLevel'', ''BC_Category''}) sample_item \<and>
     set (map fst item') = set (map fst sample_item) \<union> {''BC_RiskLevel'', ''BC_Category''} \<and>
     map_of item' ''BC_RiskLevel'' = Some (risklevel ret_level8)"
    by (rule do_work_frame[OF do_work_resp_level8 _ rlcheck_resp_level8])
      (simp_all add: sample_item_def dict_getitem_def ret_level8_def)
  then obtain item' where
    "CSVWriter_write (sample_sink ''blocked.csv'')
         (sample_item @
            [(''BC_RiskLevel'', PInt 8), (''BC_Category'', PStr ''Technology/Internet'')]) =
         CSVWriter_write (sample_sink ''blocked.csv'') item'"
    "filter (\<lambda>kv. fst kv \<notin> {''BC_RiskLevel'', ''BC_Category''}) item' =
       filter (\<lambda>kv. fst kv \<notin> {''BC_RiskLevel'', ''BC_Category''}) sample_item"
    "map_of item' ''BC_RiskLevel'' = Some (risklevel ret_level8)"
    by (auto simp: CSVWriter_write_def sample_sink_def queue_put_def Queue_def)
  then show ?thesis
    by (intro exI[of _ item']) (simp add: sample_item_def ret_level8_def)
qed

text \<open>
  C10. A response whose status code is none of 200, 400, 401 and 429 makes
  \<^verbatim>\<open>rlcheck\<close> return the initial result: error 0, blocked 0, risk level 0, no
  category. \<^verbatim>\<open>do_work\<close> then writes the record, with risk level 0 and an empty
  category string, to the policy sink and sends a \<^verbatim>\<open>policy\<close> event.
\<close>

theorem other_status_goes_to_policy:
  assumes "status_code resp \<notin> {200, 400, 401, 429}"
    and "get (tex_api_url @ ioc) = Returns resp"
    and "dict_getitem item ''Indicator'' = Inr (PStr ioc)"
  shows "rlcheck get (PStr ioc) =
           Inr \<lparr> error = ErrCode 0, blocked = 0, risklevel = PInt 0, category = [],
                 blocked_by_cat = None, blocked_by_rl = None \<rparr> \<and>
         do_work get item csv_blocked csv_policy csv_error stat =
           Inr (csv_blocked,
                CSVWriter_write csv_policy
                  (dict_update item [(''BC_RiskLevel'', PInt 0), (''BC_Category'', PStr [])]),
                csv_error, IOCStat_update stat (stat_event ''policy''))"
  using assms by (simp add: rlcheck_def rlcheck_status_def do_work_def ret_init_def)

theorem other_status_goes_to_policy_witness:
  "rlcheck (\<lambda>url. Returns resp_500) (PStr ''8.8.8.8'') =
     Inr \<lparr> error = ErrCode 0, blocked = 0, risklevel = PInt 0, category = [],
           blocked_by_cat = None, blocked_by_rl = None \<rparr> \<and>
   do_work (\<lambda>url. Returns resp_500) sample_item
       (sample_sink ''blocked.csv'') (sample_sink ''policy.csv'') (sample_sink ''error.csv'')
       IOCStat_init =
     Inr (sample_sink ''blocked.csv'',
          CSVWriter_write (sample_sink ''policy.csv'')
            (sample_item @ [(''BC_RiskLevel'', PInt 0), (''BC_Category'', PStr [])]),
          sample_sink ''error.csv'', IOCStat_update IOCStat_init (stat_event ''policy''))"
  using other_status_goes_to_policy[of resp_500 "\<lambda>url. Returns resp_500" "''8.8.8.8''"
      sample_item "sample_sink ''blocked.csv''" "sample_sink ''policy.csv''"
      "sample_sink ''error.csv''" IOCStat_init]
  by (simp add: resp_500_def sample_item_def dict_getitem_def)

section \<open>The invariants are kept by every step\<close>

lemma holding_update:
  "i < length xs \<Longrightarrow>
     sum_list (map holding (xs[i := v])) + holding (xs ! i) = sum_list (map holding xs) + holding v"
proof (induction xs arbitrary: i)
  case Nil
  then show ?case by simp
next
  case (Cons x xs)
  then show ?case by (cases i) auto
qed

lemma three_eta: "three (f BlockedSink) (f PolicySink) (f ErrorSink) = f"
  by (rule ext) (simp add: three_def split: role.splits)

lemma three_upd:
  "(three b p e)(BlockedSink := x) = three x p e"
  "(three b p e)(PolicySink := x) = three b x e"
  "(three b p e)(ErrorSink := x) = three b p x"
  by (rule ext, simp add: three_def split: role.splits)+

lemma do_work_cases:
  assumes "do_work get item b p e st = Inr (b', p', e', st')"
  obtains (err) "b' = b" "p' = p" "e' = CSVWriter_write e item"
  | (blk) item' where "b' = CSVWriter_write b item'" "p' = p" "e' = e"
  | (pol) item' where "b' = b" "p' = CSVWriter_write p item'" "e' = e"
  using assms
  by (auto simp: do_work_def Let_def split: sum.splits if_splits)

lemma do_work_writes_one:
  assumes "do_work get item (f BlockedSink) (f PolicySink) (f ErrorSink) st = Inr (b', p', e', st')"
  shows "\<exists>r data. three b' p' e' = f(r := CSVWriter_write (f r) data)"
  using assms
proof (cases rule: do_work_cases)
  case err
  then have "three b' p' e' = f(ErrorSink := CSVWriter_write (f ErrorSink) item)"
    using three_upd(3)[of "f BlockedSink" "f PolicySink" "f ErrorSink"] by (simp add: three_eta)
  then show ?thesis by blast
next
  case (blk item')
  then have "three b' p' e' = f(BlockedSink := CSVWriter_write (f BlockedSink) item')"
    using three_upd(1)[of "f BlockedSink" "f PolicySink" "f ErrorSink"] by (simp add: three_eta)
  then show ?thesis by blast
next
  case (pol item')
  then have "three b' p' e' = f(PolicySink := CSVWriter_write (f PolicySink) item')"
    using three_upd(2)[of "f BlockedSink" "f PolicySink" "f ErrorSink"] by (simp add: three_eta)
  then show ?thesis by blast
qed

lemma ingest_row_cases:
  assumes "ingest_row row qu e st = Inr (qu', e', st')"
  obtains (put) "qu' = queue_put row qu" "e' = e"
  | (err) "qu' = qu" "e' = CSVWriter_write e row"
  using assms by (auto simp: ingest_row_def split: sum.splits if_splits)

lemma step_work_inv:
  assumes "step s s'" and "work_inv s"
  shows "work_inv s'"
  using assms
proof (induction rule: step.induct)
  case (worker_get i s item qu)
  then show ?case
    using holding_update[of i "threads s" "WWork item"]
    by (auto simp: work_inv_def queue_get_def split: if_splits)
next
  case (worker_do_work i s item get b p e st)
  then show ?case
    using holding_update[of i "threads s" "WAck"]
    by (auto simp: work_inv_def)
next
  case (worker_raise i s item get ex)
  then show ?case 
    using holding_update[of i "threads s" "WDead"]
    by (auto simp: work_inv_def)
next
  case (worker_task_done i s qu)
  then show ?case 
    using holding_update[of i "threads s" "WLoop"]
    by (auto simp: work_inv_def queue_task_done_def split: if_splits)
next
  case (worker_task_done_raise i s)
  then show ?case 
    using holding_update[of i "threads s" "WDead"]
    by (auto simp: work_inv_def)
next
  case (worker_continue i s)
  then show ?case using holding_update[of i "threads s" "WGet"]
    by (auto simp: work_inv_def)
next
  case (worker_exit i s)
  then show ?case using holding_update[of i "threads s" "WExit"]
    by (auto simp: work_inv_def)
next
  case (worker_empty i s)
  then show ?case using holding_update[of i "threads s" "WLoop"]
    by (auto simp: work_inv_def)
next
  case (main_row s row rest qu e st)
  then show ?case
    by (auto simp: work_inv_def queue_put_def elim!: ingest_row_cases)
qed (auto simp: work_inv_def)

lemma holding_le: "i < length xs \<Longrightarrow> holding (xs ! i) \<le> sum_list (map holding xs)"
proof (induction xs arbitrary: i)
  case Nil
  then show ?case by simp
next
  case (Cons x xs)
  then show ?case by (cases i) (auto intro: trans_le_add2)
qed

lemma busy_worker:
  assumes "work_inv s" "i < length (threads s)" "0 < holding (threads s ! i)"
  shows "0 < unfinished_tasks (workq s)"
  using assms holding_le[of i "threads s"] by (simp add: work_inv_def)

lemma write_queue [simp]:
  "unfinished_tasks (queue (CSVWriter_write w d)) = Suc (unfinished_tasks (queue w))"
  "puts (queue (CSVWriter_write w d)) = puts (queue w) @ [d]"
  "taken (queue (CSVWriter_write w d)) = taken (queue w)"
  "finished (CSVWriter_write w d) = finished w"
  "handle_closed (CSVWriter_write w d) = handle_closed w"
  "filename (CSVWriter_write w d) = filename w"
  "fieldnames (CSVWriter_write w d) = fieldnames w"
  by (simp_all add: CSVWriter_write_def queue_put_def)

lemma rank_after_close [simp]: "main_rank (after_close r) = 6 + 3 * role_index r"
  by (cases r) (simp_all add: after_close_def)

lemma step_main_inv:
  assumes "step s s'" and "main_inv s" and "work_inv s"
  shows "main_inv s'"
  using assms
proof (induction rule: step.induct)
  case (worker_do_work i s item get b p e st)
  from busy_worker[OF worker_do_work.prems(2) worker_do_work.hyps(1)] worker_do_work.hyps(2)
  have busy: "0 < unfinished_tasks (workq s)" by simp
  with worker_do_work.prems(1) have low: "main_rank (mainpc s) < 2"
    by (auto simp: main_inv_def)
  from do_work_writes_one[OF worker_do_work.hyps(3)] obtain r data where
    "three b p e = (sinks s)(r := CSVWriter_write (sinks s r) data)" by blast
  with worker_do_work.prems(1) low show ?case
    by (auto simp: main_inv_def)
next
  case (main_row s row rest qu e st)
  then show ?case
    by (auto simp: main_inv_def elim!: ingest_row_cases)
next
  case (worker_get i s item qu)
  then show ?case by (auto simp: main_inv_def queue_get_def split: if_splits)
next
  case (worker_task_done i s qu)
  then show ?case by (auto simp: main_inv_def queue_task_done_def split: if_splits)
next
  case (writer_get s r data qu)
  then show ?case by (auto simp: main_inv_def queue_get_def split: if_splits)
next
  case (writer_task_done s r qu)
  then show ?case by (auto simp: main_inv_def queue_task_done_def split: if_splits)
next
  case (main_join s)
  then show ?case by (auto simp: main_inv_def queue_joined_def)
next
  case (main_close_join s r)
  show ?case
    unfolding main_inv_def
  proof (intro conjI allI impI)
    fix r' assume "4 + 3 * role_index r' \<le> main_rank (mainpc (s\<lparr>mainpc := MCloseFinish r\<rparr>))"
    then have "r' = r \<or> 4 + 3 * role_index r' \<le> main_rank (mainpc s)"
      using main_close_join.hyps(1) by (cases r; cases r') simp_all
    then show "unfinished_tasks (queue (sinks (s\<lparr>mainpc := MCloseFinish r\<rparr>) r')) = 0"
      using main_close_join.hyps(2) main_close_join.prems(1)
      by (auto simp: main_inv_def queue_joined_def)
  qed (use main_close_join in \<open>auto simp: main_inv_def\<close>)
next
  case (main_close_finished s r)
  then show ?case by (auto simp: main_inv_def)
next
  case (main_close_file s r)
  let ?s' = "s\<lparr>sinks := (sinks s)(r := (sinks s r)\<lparr>handle_closed := True\<rparr>),
      mainpc := after_close r\<rparr>"
  show ?case
    unfolding main_inv_def
  proof (intro conjI allI impI)
    fix r' assume "4 + 3 * role_index r' \<le> main_rank (mainpc ?s')"
    then have "4 + 3 * role_index r' \<le> main_rank (mainpc s)"
      using main_close_file.hyps(1) by (cases r; cases r') simp_all
    then show "unfinished_tasks (queue (sinks ?s' r')) = 0"
      using main_close_file.prems(1) by (auto simp: main_inv_def)
  qed (use main_close_file in \<open>auto simp: main_inv_def split: if_splits\<close>)
qed (auto simp: main_inv_def)

lemma step_static:
  assumes "step s s'"
  shows "filename (sinks s' r) = filename (sinks s r) \<and> fieldnames (sinks s' r) = fieldnames (sinks s r)"
  using assms
proof (induction rule: step.induct)
  case (worker_do_work i s item get b p e st)
  from do_work_writes_one[OF worker_do_work.hyps(3)] obtain r0 data where
    "three b p e = (sinks s)(r0 := CSVWriter_write (sinks s r0) data)" by blast
  then show ?case by simp
next
  case (main_row s row rest qu e st)
  then show ?case by (auto elim!: ingest_row_cases)
qed auto

lemma step_names_inv: "step s s' \<Longrightarrow> names_inv s \<Longrightarrow> names_inv s'"
  by (simp add: names_inv_def step_static)
lemma sink_inv_write:
  assumes "sink_inv s r"
    and "sinks s' = (sinks s)(r0 := CSVWriter_write (sinks s r0) data)"
    and "writers s' = writers s" and "disk s' = disk s"
  shows "sink_inv s' r"
proof (cases "r = r0")
  case False
  with assms show ?thesis by (simp add: sink_inv_def written_def)
next
  case True
  let ?q = "queue (sinks s r)"
  have "held (writers s r) = None \<or> taken ?q - 1 < length (puts ?q)"
    using assms(1) by (cases "writers s r") (auto simp: sink_inv_def)
  then have "held (writers s r) = None \<or>
      held (writers s r) = Some ((puts ?q @ [data]) ! (taken ?q - 1))"
    using assms(1) by (auto simp: sink_inv_def nth_append)
  with True assms show ?thesis
    by (auto simp: sink_inv_def written_def)
qed

lemma sink_inv_cong:
  assumes "sink_inv s r"
    and "queue (sinks s' r) = queue (sinks s r)"
    and "filename (sinks s' r) = filename (sinks s r)"
    and "fieldnames (sinks s' r) = fieldnames (sinks s r)"
    and "writers s' r = writers s r \<or>
         writer_holding (writers s' r) = writer_holding (writers s r) \<and>
         unwritten (writers s' r) = unwritten (writers s r) \<and> held (writers s' r) = None"
    and "disk s' (filename (sinks s r)) = disk s (filename (sinks s r))"
  shows "sink_inv s' r"
  using assms(5)
proof
  assume "writers s' r = writers s r"
  with assms(1-4,6) show ?thesis by (simp add: sink_inv_def written_def)
next
  assume "writer_holding (writers s' r) = writer_holding (writers s r) \<and>
         unwritten (writers s' r) = unwritten (writers s r) \<and> held (writers s' r) = None"
  with assms(1-4,6) show ?thesis by (simp add: sink_inv_def written_def)
qed

lemma writer_get_inv:
  assumes "writers s r = SGet" "queue_get (queue (sinks s r)) = Some (data, qu)" "sink_inv s r"
  shows "sink_inv (s\<lparr>sinks := (sinks s)(r := (sinks s r)\<lparr>queue := qu\<rparr>),
              writers := (writers s)(r := SWrite data)\<rparr>) r"
proof -
  from assms(2) have lt: "taken (queue (sinks s r)) < length (puts (queue (sinks s r)))"
    and d: "data = puts (queue (sinks s r)) ! taken (queue (sinks s r))"
    and q: "qu = (queue (sinks s r))\<lparr>taken := taken (queue (sinks s r)) + 1\<rparr>"
    by (auto simp: queue_get_def split: if_splits)
  with assms(1,3) show ?thesis
    by (simp add: sink_inv_def written_def)
qed

lemma writer_writerow_inv:
  assumes "writers s r = SWrite data"
    and "DictWriter_row (fieldnames (sinks s r)) data = Inr cells"
    and "disk s (filename (sinks s r)) = Some f" 
    and "sink_inv s r"
  shows "sink_inv (s\<lparr>disk := (disk s)(filename (sinks s r) \<mapsto> f\<lparr>file_rows := file_rows f @ [cells]\<rparr>),
              writers := (writers s)(r := SAck)\<rparr>) r"
proof -
  let ?q = "queue (sinks s r)"
  from assms(1,4) have t: "1 \<le> taken ?q" "taken ?q \<le> length (puts ?q)"
    and d: "data = puts ?q ! (taken ?q - 1)"
    and u: "unfinished_tasks ?q = length (puts ?q) - taken ?q + 1"
    by (simp_all add: sink_inv_def)
  from assms(1,3,4) have rows: "map Inr (file_rows f) =
      map (DictWriter_row (fieldnames (sinks s r))) (take (taken ?q - 1) (puts ?q))"
    by (simp add: sink_inv_def written_def)
  from t have "take (taken ?q) (puts ?q) =
      take (taken ?q - 1) (puts ?q) @ [puts ?q ! (taken ?q - 1)]"
    using take_Suc_conv_app_nth[of "taken ?q - 1" "puts ?q"] by simp
  with rows d assms(2) have "map Inr (file_rows f @ [cells]) =
      map (DictWriter_row (fieldnames (sinks s r))) (take (taken ?q) (puts ?q))"
    by simp
  with t u show ?thesis
    by (simp add: sink_inv_def written_def)
qed

lemma writer_task_done_inv:
  assumes "writers s r = SAck" "queue_task_done (queue (sinks s r)) = Some qu" "sink_inv s r"
  shows "sink_inv (s\<lparr>sinks := (sinks s)(r := (sinks s r)\<lparr>queue := qu\<rparr>),
              writers := (writers s)(r := SLoop)\<rparr>) r"
proof -
  from assms(2) have 
    q: "qu = (queue (sinks s r))\<lparr>unfinished_tasks := unfinished_tasks (queue (sinks s r)) - 1\<rparr>"
    by (auto simp: queue_task_done_def split: if_splits)
  with assms(1,3) show ?thesis
    by (simp add: sink_inv_def written_def)
qed

lemma writer_task_done_raise_inv:
  assumes "writers s r = SAck" "queue_task_done (queue (sinks s r)) = None" "sink_inv s r"
  shows "sink_inv (s\<lparr>writers := (writers s)(r := SDead)\<rparr>) r"
  using assms by (simp add: sink_inv_def queue_task_done_def split: if_splits)

lemma step_sink_inv:
  assumes "step s s'" and "sink_inv s r" and "names_inv s"
  shows "sink_inv s' r"
  using assms
proof (induction rule: step.induct)
  case (worker_do_work i s item get b p e st)
  from do_work_writes_one[OF worker_do_work.hyps(3)] obtain r0 data where
    w: "three b p e = (sinks s)(r0 := CSVWriter_write (sinks s r0) data)" by blast
  show ?case
    by (rule sink_inv_write[of s r _ r0 data]) (use w worker_do_work.prems(1) in simp_all)
next
  case (main_row s row rest qu e st)
  from main_row.hyps(2) show ?case
  proof (cases rule: ingest_row_cases)
    case put
    show ?thesis
      by (rule sink_inv_cong[of s r]) (use put main_row.prems(1) in simp_all)
  next
    case err
    show ?thesis
      by (rule sink_inv_write[of s r _ ErrorSink row]) (use err main_row.prems(1) in simp_all)
  qed
next
  case (writer_get s r' data qu)
  show ?case
  proof (cases "r' = r")
    case False
    show ?thesis
      by (rule sink_inv_cong[of s r]) (use False writer_get.prems(1) in simp_all)
  next
    case True
    with writer_get show ?thesis by (simp add: writer_get_inv)
  qed
next
  case (writer_writerow s r' data cells f)
  show ?case
  proof (cases "r' = r")
    case False
    with writer_writerow.prems have ne: "filename (sinks s r') \<noteq> filename (sinks s r)"
      by (auto simp: names_inv_def inj_def)
    show ?thesis
      by (rule sink_inv_cong[of s r]) (use False ne writer_writerow.prems(1) in simp_all)
  next
    case True
    with writer_writerow show ?thesis by (simp add: writer_writerow_inv)
  qed
next
  case (writer_raise s r' data ex)
  then show ?case
    by - (rule sink_inv_cong[of s r], simp_all)
next
  case (writer_task_done s r' qu)
  show ?case
  proof (cases "r' = r")
    case False
    show ?thesis
      by (rule sink_inv_cong[of s r]) (use False writer_task_done.prems(1) in simp_all)
  next
    case True
    with writer_task_done show ?thesis by (simp add: writer_task_done_inv)
  qed
next
  case (writer_task_done_raise s r')
  show ?case
  proof (cases "r' = r")
    case False
    show ?thesis
      by (rule sink_inv_cong[of s r]) (use False writer_task_done_raise.prems(1) in simp_all)
  next
    case True
    with writer_task_done_raise show ?thesis by (simp add: writer_task_done_raise_inv)
  qed
next
  case (writer_continue s r')
  then show ?case
    by - (rule sink_inv_cong[of s r], simp_all)
next
  case (writer_exit s r')
  then show ?case
    by - (rule sink_inv_cong[of s r], simp_all)
next
  case (writer_empty s r')
  then show ?case
    by - (rule sink_inv_cong[of s r], simp_all)
next
  case (main_close_finished s r')
  then show ?case
    by - (rule sink_inv_cong[of s r], simp_all)
next
  case (main_close_file s r')
  then show ?case
    by - (rule sink_inv_cong[of s r], simp_all)
next
  case (worker_continue i s)
  then show ?case
    by - (rule sink_inv_cong[of s r], simp_all)
next
  case (worker_exit i s)
  then show ?case
    by - (rule sink_inv_cong[of s r], simp_all)
next
  case (worker_get i s item qu)
  then show ?case
    by - (rule sink_inv_cong[of s r], simp_all)
next
  case (worker_empty i s)
  then show ?case
    by - (rule sink_inv_cong[of s r], simp_all)
next
  case (worker_raise i s item get ex)
  then show ?case
    by - (rule sink_inv_cong[of s r], simp_all)
next
  case (worker_task_done i s qu)
  then show ?case
    by - (rule sink_inv_cong[of s r], simp_all)
next
  case (worker_task_done_raise i s)
  then show ?case
    by - (rule sink_inv_cong[of s r], simp_all)
next
  case (main_row_raise s row rest ex)
  then show ?case
    by - (rule sink_inv_cong[of s r], simp_all)
next
  case (main_rows_done s)
  then show ?case
    by - (rule sink_inv_cong[of s r], simp_all)
next
  case (main_join s)
  then show ?case
    by - (rule sink_inv_cong[of s r], simp_all)
next
  case (main_shutdown s)
  then show ?case
    by - (rule sink_inv_cong[of s r], simp_all)
next
  case (main_close_join s r')
  then show ?case
    by - (rule sink_inv_cong[of s r], simp_all)
qed
lemma worker_step_sound: "worker_step i get s = Some s' \<Longrightarrow> step s s'"
  unfolding worker_step_def
  by (auto split: if_splits worker_pc.splits option.splits sum.splits prod.splits
      intro: step.intros)

lemma writer_step_sound: "writer_step r s = Some s' \<Longrightarrow> step s s'"
  unfolding writer_step_def
  by (auto split: if_splits writer_pc.splits option.splits sum.splits prod.splits
      intro: step.intros)

lemma main_step_sound: "main_step s = Some s' \<Longrightarrow> step s s'"
  unfolding main_step_def
  by (auto split: if_splits main_pc.splits list.splits option.splits sum.splits prod.splits
      intro: step.intros)

lemma exec_sound: "exec a s = Some s' \<Longrightarrow> step s s'"
  by (cases a) (auto intro: worker_step_sound writer_step_sound main_step_sound)

lemma run_sound: "run as s = Some s' \<Longrightarrow> reachable s0 s \<Longrightarrow> reachable s0 s'"
proof (induction as arbitrary: s)
  case Nil
  then show ?case by simp
next
  case (Cons a as)
  from Cons.prems(1) obtain s1 where a: "exec a s = Some s1" and rest: "run as s1 = Some s'"
    by (auto split: option.splits)
  from Cons.prems(2) exec_sound[OF a] have "reachable s0 s1"
    by (rule reachable.next_step)
  with rest show ?case by (rule Cons.IH)
qed

lemma outputfile_inj: "outputfile outpath ts base r = outputfile outpath ts base r' \<Longrightarrow> r = r'"
  by (cases r; cases r') (auto simp: outputfile_def path_join_def role_tag_def split: if_splits)

lemma main_start_cases:
  assumes "main_start outpath ts base disk0 input_rows n = Inr s0"
  obtains names where "fieldnames_of input_rows = Inr names"
    and "workq s0 = Queue" and "shutdown_event s0 = False"
    and "\<And>r. sinks s0 r = \<lparr> filename = outputfile outpath ts base r, fieldnames = names,
            queue = Queue, finished = False, handle_closed = False \<rparr>"
    and "\<And>r. disk s0 (outputfile outpath ts base r) = Some \<lparr> file_header = names, file_rows = [] \<rparr>"
    and "threads s0 = replicate n WLoop" and "\<And>r. writers s0 r = SLoop"
    and "mainpc s0 = MFill input_rows"
proof -
  from assms obtain names where n: "fieldnames_of input_rows = Inr names"
    by (auto simp: main_start_def split: sum.splits)
  have ne: "outputfile outpath ts base BlockedSink \<noteq> outputfile outpath ts base PolicySink"
    "outputfile outpath ts base BlockedSink \<noteq> outputfile outpath ts base ErrorSink"
    "outputfile outpath ts base PolicySink \<noteq> outputfile outpath ts base ErrorSink"
    using outputfile_inj by blast+
  from assms n have s0: "s0 = \<lparr> workq = Queue, shutdown_event = False,
      sinks = three
        \<lparr> filename = outputfile outpath ts base BlockedSink, fieldnames = names,
            queue = Queue, finished = False, handle_closed = False \<rparr>
        \<lparr> filename = outputfile outpath ts base PolicySink, fieldnames = names,
            queue = Queue, finished = False, handle_closed = False \<rparr>
        \<lparr> filename = outputfile outpath ts base ErrorSink, fieldnames = names,
            queue = Queue, finished = False, handle_closed = False \<rparr>,
      iocstat = IOCStat_init,
      disk = disk0(outputfile outpath ts base BlockedSink \<mapsto> \<lparr> file_header = names, file_rows = [] \<rparr>,
                   outputfile outpath ts base PolicySink \<mapsto> \<lparr> file_header = names, file_rows = [] \<rparr>,
                   outputfile outpath ts base ErrorSink \<mapsto> \<lparr> file_header = names, file_rows = [] \<rparr>),
      threads = replicate n WLoop, writers = (\<lambda>r. SLoop), mainpc = MFill input_rows \<rparr>"
    by (simp add: main_start_def CSVWriter_init_def)
  show thesis
  proof (rule that[OF n])
    fix r
    show "sinks s0 r = \<lparr> filename = outputfile outpath ts base r, fieldnames = names,
            queue = Queue, finished = False, handle_closed = False \<rparr>"
      by (cases r) (simp_all add: s0 three_def)
    show "disk s0 (outputfile outpath ts base r) = Some \<lparr> file_header = names, file_rows = [] \<rparr>"
      using ne by (cases r) (simp_all add: s0)
  qed (simp_all add: s0)
qed

lemma main_start_inv:
  assumes "main_start outpath ts base disk0 input_rows n = Inr s0"
  shows "work_inv s0" "main_inv s0" "sink_inv s0 r" "names_inv s0"
proof -
  from assms show "work_inv s0"
    by (cases rule: main_start_cases) (simp add: work_inv_def Queue_def)
  from assms show "main_inv s0"
    by (cases rule: main_start_cases) (simp add: main_inv_def Queue_def)
  from assms show "sink_inv s0 r"
    by (cases rule: main_start_cases) (simp add: sink_inv_def written_def Queue_def)
  from assms show "names_inv s0"
    by (cases rule: main_start_cases) (auto simp: names_inv_def inj_def dest: outputfile_inj)
qed

lemma reachable_inv:
  assumes "reachable s0 s"
    and "work_inv s0" "main_inv s0" "\<And>r. sink_inv s0 r" "names_inv s0"
  shows "work_inv s \<and> main_inv s \<and> (\<forall>r. sink_inv s r) \<and> names_inv s"
  using assms
proof (induction rule: reachable.induct)
  case start
  then show ?case by simp
next
  case (next_step s s')
  then have inv: "work_inv s" "main_inv s" "\<And>r. sink_inv s r" "names_inv s"
    by simp_all
  from next_step.hyps(2) inv show ?case
    by (simp add: step_work_inv step_main_inv step_sink_inv step_names_inv)
qed

lemma not_holding_written: "writer_holding pc = 0 \<Longrightarrow> unwritten pc = 0"
  by (cases pc) simp_all

lemma closed_after_drain:
  assumes "work_inv s" "main_inv s" "sink_inv s r"
  shows "(shutdown_event s \<or> finished (sinks s r) \<or> handle_closed (sinks s r) \<longrightarrow> drained s) \<and>
         (handle_closed (sinks s r) \<longrightarrow> all_written s r)"
proof (intro conjI impI)
  assume "shutdown_event s \<or> finished (sinks s r) \<or> handle_closed (sinks s r)"
  with assms(2) have "2 \<le> main_rank (mainpc s)"
    by (auto simp: main_inv_def dest!: spec[of _ r])
  with assms(2) have "unfinished_tasks (workq s) = 0"
    by (simp add: main_inv_def)
  with assms(1) show "drained s"
    by (simp add: work_inv_def drained_def del: sum_list_eq_0_iff)
next
  assume "handle_closed (sinks s r)"
  with assms(2) have u: "unfinished_tasks (queue (sinks s r)) = 0"
    by (auto simp: main_inv_def dest!: spec[of _ r])
  with assms(3) have "taken (queue (sinks s r)) = length (puts (queue (sinks s r)))"
    and "writer_holding (writers s r) = 0"
    by (auto simp: sink_inv_def)
  with assms(3) u show "all_written s r"
    by (simp add: all_written_def sink_inv_def not_holding_written)
qed

section \<open>Properties of the pipeline\<close>

lemma run_two_rows:
  "\<exists>s0 s.
     main_start ''output'' ''20211231235959'' ''iocs.csv'' Map.empty [sample_item, hash_row] 1
       = Inr s0 \<and>
     run schedule_two_rows s0 = Some s \<and>
     mainpc s = MClosed \<and>
     handle_closed (sinks s BlockedSink) \<and>
     puts (queue (sinks s BlockedSink)) =
       [sample_item @ [(''BC_RiskLevel'', PInt 8), (''BC_Category'', PStr ''Technology/Internet'')]] \<and>
     disk s ''output/20211231235959_blocked_iocs.csv'' =
       Some \<lparr>file_header = sample_names,
             file_rows = [[PStr ''IP Address'', PStr ''8.8.8.8'', PInt 8,
                           PStr ''Technology/Internet'']]\<rparr>"
  by (simp add: main_start_def fieldnames_of_def hash_row_def sample_item_def CSVWriter_init_def
      outputfile_def path_join_def role_tag_def schedule_two_rows_def main_step_def
      writer_step_def worker_step_def do_work_resp_level8[unfolded sample_item_def]
      ingest_row_def dict_getitem_def supported_def SUPPORTED_THREAT_TYPES_def
      CSVWriter_write_def IOCStat_update_def queue_put_def queue_get_def queue_task_done_def
      queue_joined_def Queue_def three_def after_close_def DictWriter_row_def sample_names_def
      IOCStat_init_def stat_event_def)

text \<open>
  C4. In every state that a run of the pipeline can reach, from the start of the
  threads to the closing of the sinks, under any schedule and any behaviour of the
  network: if the shutdown signal is set, or a sink has its \<^verbatim>\<open>finished\<close> flag set or
  its file handle closed, then the work queue is drained (no unacknowledged item,
  nothing left in the queue, no worker holding an item); and if the file handle of a
  sink is closed, then every record submitted to that sink is in its file.
\<close>

theorem sinks_closed_after_drain:
  assumes "main_start outpath ts base disk0 input_rows n = Inr s0"
    and "reachable s0 s"
  shows "(shutdown_event s \<or> finished (sinks s r) \<or> handle_closed (sinks s r)
            \<longrightarrow> drained s) \<and>
         (handle_closed (sinks s r) \<longrightarrow> all_written s r)"
proof -
  from reachable_inv[OF assms(2) main_start_inv[OF assms(1)]]
  have "work_inv s" "main_inv s" "sink_inv s r"
    by simp_all
  then show ?thesis by (rule closed_after_drain)
qed

theorem sinks_closed_after_drain_witness:
  "\<exists>s0 s.
     main_start ''output'' ''20211231235959'' ''iocs.csv'' Map.empty [sample_item, hash_row] 1
       = Inr s0 \<and>
     run schedule_two_rows s0 = Some s \<and>
     handle_closed (sinks s BlockedSink) \<and> drained s \<and> all_written s BlockedSink"
proof -
  from run_two_rows obtain s0 s where
    start: "main_start ''output'' ''20211231235959'' ''iocs.csv'' Map.empty
              [sample_item, hash_row] 1 = Inr s0"
    and run: "run schedule_two_rows s0 = Some s"
    and closed: "handle_closed (sinks s BlockedSink)"
    by blast
  have "reachable s0 s"
    using run reachable.start by (rule run_sound)
  from sinks_closed_after_drain[OF start this, of BlockedSink] closed
  have "drained s \<and> all_written s BlockedSink"
    by simp
  with start run closed show ?thesis by blast
qed

lemma output_files_stay:
  assumes "main_start outpath ts base disk0 input_rows n = Inr s0"
    and "reachable s0 s"
  shows "disk s (filename (sinks s r)) \<noteq> None"
proof -
  from reachable_inv[OF assms(2) main_start_inv[OF assms(1)]]
  have "sink_inv s r" by simp
  then show ?thesis by (auto simp: sink_inv_def written_def)
qed

lemma rlcheck_main_cleanup_removes:
  "rlcheck_main_cleanup 0 policy_count error_count name_b name_p name_e files name_b = None"
  "rlcheck_main_cleanup blocked_count 0 error_count name_b name_p name_e files name_p = None"
  "rlcheck_main_cleanup blocked_count policy_count 0 name_b name_p name_e files name_e = None"
  by (simp_all add: rlcheck_main_cleanup_def remove_if_zero_def)

text \<open>
  C7. \<^verbatim>\<open>rlcheckmt.py\<close> leaves the files of roles that received no record behind. For
  an input whose only row has an unsupported type, a run with one worker ends with all
  sinks closed, nothing ever submitted to the blocked and the policy sink, and both
  their files on disk, holding the header line and no row.
\<close>

theorem empty_outputs_left_behind:
  "\<exists>s0 s.
     main_start ''output'' ''20211231235959'' ''iocs.csv'' Map.empty [hash_row] 1 = Inr s0 \<and>
     run schedule_unsupported s0 = Some s \<and>
     mainpc s = MClosed \<and>
     puts (queue (sinks s BlockedSink)) = [] \<and>
     puts (queue (sinks s PolicySink)) = [] \<and>
     disk s ''output/20211231235959_blocked_iocs.csv'' =
       Some \<lparr>file_header = sample_names, file_rows = []\<rparr> \<and>
     disk s ''output/20211231235959_policy_iocs.csv'' =
       Some \<lparr>file_header = sample_names, file_rows = []\<rparr> \<and>
     disk s ''output/20211231235959_error_iocs.csv'' =
       Some \<lparr>file_header = sample_names,
             file_rows = [[PStr ''File Hash'', PStr ''d41d8cd98f00'', PStr [], PStr []]]\<rparr>"
  by (simp add: main_start_def fieldnames_of_def hash_row_def CSVWriter_init_def outputfile_def
      path_join_def role_tag_def schedule_unsupported_def main_step_def writer_step_def
      ingest_row_def dict_getitem_def supported_def SUPPORTED_THREAT_TYPES_def
      CSVWriter_write_def IOCStat_update_def queue_put_def queue_get_def queue_task_done_def
      queue_joined_def Queue_def three_def after_close_def DictWriter_row_def sample_names_def
      IOCStat_init_def stat_event_def)

end
